theory Spec2Isabelle
  imports Complex_Main
begin

section \<open>Moody surface plate analysis: the worksheets of \<open>moody.c\<close>\<close>

text \<open>
  The program keeps eight worksheets, one per measured line, in one global array
  \<^verbatim>\<open>float ws[8][9][MAX_STATIONS]\<close>, indexed by table, column and station, with the
  number of readings of each table in \<^verbatim>\<open>int num_dat[8]\<close>.  Column index \<open>k\<close> holds Moody's
  column \<open>k + 1\<close>; index 8 holds Moody's column 6a of the two center lines.

  The array is modelled as a function from the three indices to the cell's value, and the
  globals as one record that every routine takes and returns.  A \<^verbatim>\<open>float\<close> cell is a
  \<open>real\<close>: the arithmetic of the model is exact, rounding is not part of it.  The counts
  in \<open>num_dat\<close> are natural numbers: the program only ever stores a count of lines read.
\<close>

definition MAX_STATIONS :: nat where
  "MAX_STATIONS = 128"

definition NW_SE :: nat where "NW_SE = 0"
definition NE_SW :: nat where "NE_SW = 1"
definition NE_NW :: nat where "NE_NW = 2"
definition NE_SE :: nat where "NE_SE = 3"
definition SE_SW :: nat where "SE_SW = 4"
definition NW_SW :: nat where "NW_SW = 5"
definition E_W :: nat where "E_W = 6"
definition N_S :: nat where "N_S = 7"

definition filenames :: "string list" where
  "filenames = [''NW_SE.txt'', ''NE_SW.txt'', ''NE_NW.txt'', ''NE_SE.txt'',
                ''SE_SW.txt'', ''NW_SW.txt'', ''E_W.txt'', ''N_S.txt'']"

record state =
  ws :: "nat \<Rightarrow> nat \<Rightarrow> nat \<Rightarrow> real"
  num_dat :: "nat \<Rightarrow> nat"
  metric :: int
  foot_spacing :: real

text \<open>One arc second in radians, with the source's value of pi.\<close>

definition arcsec :: real where
  "arcsec = 2.0 * 3.141592 / (360.0 * 60 * 60)"

text \<open>The globals at program start: static storage is zeroed, \<open>metric\<close> starts at \<open>-1\<close>.\<close>

definition initial :: state where
  "initial = \<lparr>ws = (\<lambda>i c j. 0), num_dat = (\<lambda>i. 0), metric = - 1, foot_spacing = 0\<rparr>"

text \<open>The assignment \<^verbatim>\<open>ws[i][c][j] = v\<close>.\<close>

definition store :: "nat \<Rightarrow> nat \<Rightarrow> nat \<Rightarrow> real \<Rightarrow> state \<Rightarrow> state" where
  "store i c j v s = s\<lparr>ws := (ws s)(i := (ws s i)(c := (ws s i c)(j := v)))\<rparr>"

subsection \<open>Reading the input files\<close>

text \<open>
  A file is the list of buffers that successive calls of \<^verbatim>\<open>fgets\<close> return, each shorter
  than the buffer; \<open>fopen\<close> maps a file name to that list, or to \<open>None\<close> when the file
  cannot be opened.  The C library's \<^verbatim>\<open>sscanf\<close> is a parameter: for the data files it
  maps the text at \<open>head\<close> to the return value and the number stored by \<^verbatim>\<open>%f\<close>, for the
  configuration file to the return value, the flag character and the number.
\<close>

datatype error =
    Cannot_open string
  | Cannot_parse nat string
  | Too_many_stations nat string
  | Too_few_lines nat string
  | No_foot_spacing string

definition newline :: char where
  "newline = CHR 0x0A"

definition isspace :: "char \<Rightarrow> bool" where
  "isspace c \<longleftrightarrow> c = CHR '' '' \<or> c = CHR 0x09 \<or> c = CHR 0x0A \<or> c = CHR 0x0B
     \<or> c = CHR 0x0C \<or> c = CHR 0x0D"

text \<open>\<^verbatim>\<open>while (isspace(*head) && *head!='\n') head++;\<close>\<close>

definition skip_space :: "string \<Rightarrow> string" where
  "skip_space buf = dropWhile (\<lambda>c. isspace c \<and> c \<noteq> newline) buf"

text \<open>\<^verbatim>\<open>*head=='\n' || *head=='#'\<close>; at the end of the text \<^verbatim>\<open>*head\<close> is the NUL.\<close>

definition comment_or_end :: "string \<Rightarrow> bool" where
  "comment_or_end head =
     (case head of [] \<Rightarrow> False | c # rest \<Rightarrow> c = newline \<or> c = CHR ''#'')"

text \<open>The \<^verbatim>\<open>while (fgets ...)\<close> loop of \<open>read_config_file\<close>, from the line after \<open>file_line\<close>.\<close>

fun config_lines ::
  "(string \<Rightarrow> int \<times> char \<times> real) \<Rightarrow> string list \<Rightarrow> nat \<Rightarrow> state \<Rightarrow> error + state" where
  "config_lines sscanf [] file_line s = Inl (No_foot_spacing ''Config.txt'')"
| "config_lines sscanf (buf # rest) file_line0 s =
     (let file_line = file_line0 + 1;
          head = skip_space buf
      in if comment_or_end head then config_lines sscanf rest file_line s
         else
           (case sscanf head of (ret, flag, x) \<Rightarrow>
              if ret \<noteq> 2 \<or> \<not> (flag = CHR ''M'' \<or> flag = CHR ''I'')
              then Inl (Cannot_parse file_line ''Config.txt'')
              else if flag = CHR ''M''
                   then Inr (s\<lparr>metric := 1, foot_spacing := x\<rparr>)
                   else Inr (s\<lparr>metric := 0, foot_spacing := x\<rparr>)))"

definition read_config_file ::
  "(string \<Rightarrow> int \<times> char \<times> real) \<Rightarrow> (string \<Rightarrow> string list option) \<Rightarrow> state
     \<Rightarrow> error + state" where
  "read_config_file sscanf fopen s =
     (case fopen ''Config.txt'' of
        None \<Rightarrow> Inl (Cannot_open ''Config.txt'')
      | Some bufs \<Rightarrow> config_lines sscanf bufs 0 s)"

text \<open>
  The \<^verbatim>\<open>while (fgets ...)\<close> loop of \<open>read_data\<close>.  A reading is stored at station
  \<open>lines_read + 1\<close>, so the readings of a file occupy stations \<open>1..N\<close> of column 2 and
  station 0 is never written.  The capacity test comes after the increment.
\<close>

fun read_lines ::
  "(string \<Rightarrow> int \<times> real) \<Rightarrow> nat \<Rightarrow> string list \<Rightarrow> nat \<Rightarrow> nat \<Rightarrow> state
     \<Rightarrow> error + nat \<times> state" where
  "read_lines sscanf which_file [] file_line lines_read s = Inr (lines_read, s)"
| "read_lines sscanf which_file (buf # rest) file_line0 lines_read0 s =
     (let file_line = file_line0 + 1;
          head = skip_space buf
      in if comment_or_end head
         then read_lines sscanf which_file rest file_line lines_read0 s
         else
           (case sscanf head of (ret, x) \<Rightarrow>
              if ret \<noteq> 1 then Inl (Cannot_parse file_line (filenames ! which_file))
              else
                (let s1 = store which_file 1 (lines_read0 + 1) x s;
                     lines_read = lines_read0 + 1
                 in if lines_read \<ge> MAX_STATIONS - 2
                    then Inl (Too_many_stations (MAX_STATIONS - 2) (filenames ! which_file))
                    else read_lines sscanf which_file rest file_line lines_read s1)))"

definition read_data ::
  "(string \<Rightarrow> int \<times> real) \<Rightarrow> (string \<Rightarrow> string list option) \<Rightarrow> nat \<Rightarrow> state
     \<Rightarrow> error + state" where
  "read_data sscanf fopen which_file s =
     (let fname = filenames ! which_file
      in case fopen fname of
           None \<Rightarrow> Inl (Cannot_open fname)
         | Some bufs \<Rightarrow>
             (case read_lines sscanf which_file bufs 0 0 s of
                Inl e \<Rightarrow> Inl e
              | Inr (lines_read, s1) \<Rightarrow>
                  if lines_read < 3 then Inl (Too_few_lines lines_read fname)
                  else Inr (s1\<lparr>num_dat := (num_dat s1)(which_file := lines_read)\<rparr>)))"

subsection \<open>The worksheet columns\<close>

text \<open>
  The middle value of a column: the middle row when \<open>ndat\<close> is even, the mean of the two
  middle rows when it is odd.
\<close>

definition mid_value :: "nat \<Rightarrow> nat \<Rightarrow> state \<Rightarrow> real" where
  "mid_value which_sheet which_column s =
     (let ndat = num_dat s which_sheet
      in if ndat mod 2 = 0 then ws s which_sheet which_column (ndat div 2)
         else
           (let a = ws s which_sheet which_column ((ndat - 1) div 2);
                b = ws s which_sheet which_column ((ndat + 1) div 2)
            in 0.5 * (a + b)))"

text \<open>The body of the loop of \<open>shift_lines\<close> at station \<open>j\<close>.\<close>

definition shift_step :: "nat \<Rightarrow> real \<Rightarrow> nat \<Rightarrow> state \<Rightarrow> state" where
  "shift_step i correction_factor j s =
     (let s1 = store i 4 j (ws s i 4 (j + 1) + correction_factor) s
      in store i 5 j (ws s1 i 4 j + ws s1 i 3 j) s1)"

text \<open>
  The correction factors of the perimeter and center lines.  The loop runs
  \<open>j = ndat - 1, ..., 1\<close>; column 6a (index 8) is filled for tables 6 and 7 only.
\<close>

definition shift_lines :: "nat \<Rightarrow> state \<Rightarrow> state" where
  "shift_lines which_sheet s =
     (let i = which_sheet;
          ndat = num_dat s i;
          s1 = store i 4 ndat (ws s i 5 ndat - ws s i 3 ndat) s;
          correction_factor = (ws s1 i 4 0 - ws s1 i 4 ndat) / real ndat;
          s2 = fold (shift_step i correction_factor) (rev [1..<ndat]) s1
      in if which_sheet = 6 \<or> which_sheet = 7
         then
           (let should_be_zero = mid_value which_sheet 5 s2
            in fold (\<lambda>j t. store which_sheet 8 j (ws t which_sheet 5 j - should_be_zero) t)
                 [0..<ndat + 1] s2)
         else s2)"

text \<open>The body of the loop of \<open>diagonal_correction\<close> at station \<open>j\<close>.\<close>

definition diagonal_step :: "nat \<Rightarrow> real \<Rightarrow> real \<Rightarrow> nat \<Rightarrow> state \<Rightarrow> state" where
  "diagonal_step which_sheet a b j s =
     (let s1 = store which_sheet 4 j (a * real j + b) s
      in store which_sheet 5 j (ws s1 which_sheet 3 j + ws s1 which_sheet 4 j) s1)"

definition diagonal_correction :: "nat \<Rightarrow> state \<Rightarrow> state" where
  "diagonal_correction which_sheet s =
     (let ndat = num_dat s which_sheet;
          a = - 1.0 * ws s which_sheet 3 ndat / real ndat;
          b = 0.5 * ws s which_sheet 3 ndat - mid_value which_sheet 3 s
      in fold (diagonal_step which_sheet a b) [0..<ndat + 1] s)"

definition first_four_columns :: "nat \<Rightarrow> state \<Rightarrow> state" where
  "first_four_columns which_sheet s =
     (let ndat = num_dat s which_sheet;
          s1 = fold (\<lambda>j t. store which_sheet 0 j (real (j + 1)) t) [0..<ndat + 1] s;
          s2 = fold (\<lambda>j t. store which_sheet 2 j
                        (ws t which_sheet 1 j - ws t which_sheet 1 1) t) [1..<ndat + 1] s1;
          s3 = store which_sheet 3 0 0.0 s2;
          s4 = store which_sheet 3 1 0.0 s3
      in fold (\<lambda>j t. store which_sheet 3 j
                  (ws t which_sheet 3 (j - 1) + ws t which_sheet 2 j) t) [2..<ndat + 1] s4)"

subsection \<open>The main routine\<close>

text \<open>\<^verbatim>\<open>for (i=0; i<8; i++) read_data(i);\<close> where a failing \<open>read_data\<close> ends the program.\<close>

fun read_all ::
  "(string \<Rightarrow> int \<times> real) \<Rightarrow> (string \<Rightarrow> string list option) \<Rightarrow> nat list \<Rightarrow> state
     \<Rightarrow> error + state" where
  "read_all sscanf fopen [] s = Inr s"
| "read_all sscanf fopen (i # rest) s =
     (case read_data sscanf fopen i s of
        Inl e \<Rightarrow> Inl e
      | Inr s1 \<Rightarrow> read_all sscanf fopen rest s1)"

text \<open>
  The corner copies of \<open>main\<close> before the perimeter lines are shifted.  A chained
  assignment stores the same value in each cell, rightmost first.
\<close>

definition seed_perimeter :: "state \<Rightarrow> state" where
  "seed_perimeter s =
     (let ne = ws s 1 5 0;
          s1 = store 2 4 0 ne (store 2 5 0 ne (store 3 4 0 ne (store 3 5 0 ne s)));
          sw = ws s1 1 5 (num_dat s1 1);
          s2 = store 4 5 (num_dat s1 4) sw (store 5 5 (num_dat s1 5) sw s1);
          nw = ws s2 0 5 0;
          s3 = store 2 5 (num_dat s2 2) nw (store 5 4 0 nw (store 5 5 0 nw s2));
          se = ws s3 0 5 (num_dat s3 0)
      in store 3 5 (num_dat s3 3) se (store 4 4 0 se (store 4 5 0 se s3)))"

text \<open>The midpoint copies of \<open>main\<close> before the center lines are shifted.\<close>

definition seed_center :: "state \<Rightarrow> state" where
  "seed_center s =
     (let e = mid_value 3 5 s;
          s1 = store 6 4 0 e (store 6 5 0 e s);
          s2 = store 6 5 (num_dat s1 6) (mid_value 5 5 s1) s1;
          n = mid_value 2 5 s2;
          s3 = store 7 4 0 n (store 7 5 0 n s2)
      in store 7 5 (num_dat s3 7) (mid_value 4 5 s3) s3)"

text \<open>
  The cell that \<open>return_low_and_high_point\<close> reads into \<open>tmp\<close> at table \<open>i\<close>, row \<open>j\<close>:
  column 6a for the two center lines, column 6 for the others.
\<close>

definition column_6_or_6a :: "state \<Rightarrow> nat \<Rightarrow> nat \<Rightarrow> real" where
  "column_6_or_6a s i j = (if i = 6 \<or> i = 7 then ws s i 8 j else ws s i 5 j)"

text \<open>One step of the search of \<open>return_low_and_high_point\<close>, at table \<open>i\<close>, row \<open>j\<close>.\<close>

definition low_high_step :: "state \<Rightarrow> nat \<Rightarrow> nat \<Rightarrow> real \<times> real \<Rightarrow> real \<times> real" where
  "low_high_step s i j mm =
     (case mm of (minv, maxv) \<Rightarrow>
        (let tmp = column_6_or_6a s i j
         in (if tmp < minv then tmp else minv, if tmp > maxv then tmp else maxv)))"

definition return_low_and_high_point :: "state \<Rightarrow> real \<times> real" where
  "return_low_and_high_point s =
     fold (\<lambda>i. fold (low_high_step s i) [0..<num_dat s i + 1]) [0..<8]
       (ws s 0 5 0, ws s 0 5 0)"

text \<open>Moody's column 7, from column 6 (tables 0 to 5) or column 6a (tables 6 and 7).\<close>

definition column_7 :: "real \<Rightarrow> state \<Rightarrow> state" where
  "column_7 lowest s =
     (let s1 = fold (\<lambda>i t0. fold (\<lambda>j t. store i 6 j (ws t i 5 j - lowest) t)
                               [0..<num_dat t0 i + 1] t0) [0..<6] s
      in fold (\<lambda>i t0. fold (\<lambda>j t. store i 6 j (ws t i 8 j - lowest) t)
                         [0..<num_dat t0 i + 1] t0) [6..<8] s1)"

text \<open>From angle to distance: microns, or 1/100000 of an inch.\<close>

definition convert_foot_spacing :: "state \<Rightarrow> state" where
  "convert_foot_spacing s =
     (if metric s \<noteq> 0 then s\<lparr>foot_spacing := foot_spacing s * 1000.0\<rparr>
      else s\<lparr>foot_spacing := foot_spacing s * 100000.0\<rparr>)"

definition column_8 :: "state \<Rightarrow> state" where
  "column_8 s =
     fold (\<lambda>i t0. fold (\<lambda>j t. store i 7 j (ws t i 6 j * arcsec * foot_spacing t) t)
                     [0..<num_dat t0 i + 1] t0) [0..<8] s"

text \<open>The part of \<open>main\<close> from "Compute Moody column 7" to the end of column 8.\<close>

definition main_columns_7_8 :: "state \<Rightarrow> state" where
  "main_columns_7_8 s =
     (case return_low_and_high_point s of
        (lowest, highest) \<Rightarrow> column_8 (convert_foot_spacing (column_7 lowest s)))"

text \<open>
  What \<open>do_moody_consistency_checks\<close> prints, without the banner: the computed height of
  each center line, then the warning or the acceptance.
\<close>

datatype message =
    Computed_height_microns string real
  | Computed_height_micro_inches string real
  | Warning_errors_too_large
  | Errors_acceptable

definition moody_check_step :: "state \<Rightarrow> nat \<Rightarrow> int \<times> message list \<Rightarrow> int \<times> message list" where
  "moody_check_step s i acc =
     (case acc of (printwarning, out) \<Rightarrow>
        (let err = mid_value i 5 s * arcsec * foot_spacing s
         in if metric s \<noteq> 0
            then (if \<bar>err\<bar> > 2.54 then 1 else printwarning,
                  out @ [Computed_height_microns (filenames ! i) err])
            else (if \<bar>err\<bar> > 10.0 then 1 else printwarning,
                  out @ [Computed_height_micro_inches (filenames ! i) (10 * err)])))"

definition do_moody_consistency_checks :: "state \<Rightarrow> message list" where
  "do_moody_consistency_checks s =
     (case fold (moody_check_step s) [6..<8] (0, []) of
        (printwarning, out) \<Rightarrow>
          out @ [if printwarning \<noteq> 0 then Warning_errors_too_large else Errors_acceptable])"

text \<open>
  The part of \<open>main\<close> between reading the files and column 7: the first four columns of
  every table, the diagonals, the perimeter lines, the center lines.
\<close>

definition main_columns_1_6 :: "state \<Rightarrow> state" where
  "main_columns_1_6 s =
     (let s1 = fold first_four_columns [0..<8] s;
          s2 = fold diagonal_correction [0..<2] s1;
          s3 = seed_perimeter s2;
          s4 = fold shift_lines [2..<6] s3;
          s5 = seed_center s4
      in fold shift_lines [6..<8] s5)"

text \<open>
  The main routine.  The routines that only print or write files from the finished
  worksheets (the license, the station count warnings, the tables, the plot files) leave
  the globals as they are and are not part of the model; the result is the final globals
  and the output of \<open>do_moody_consistency_checks\<close>.
\<close>

definition main ::
  "(string \<Rightarrow> int \<times> char \<times> real) \<Rightarrow> (string \<Rightarrow> int \<times> real) \<Rightarrow> (string \<Rightarrow> string list option)
     \<Rightarrow> error + state \<times> message list" where
  "main sscanf_config sscanf_data fopen =
     (case read_config_file sscanf_config fopen initial of
        Inl e \<Rightarrow> Inl e
      | Inr s0 \<Rightarrow>
          (case read_all sscanf_data fopen [0..<8] s0 of
             Inl e \<Rightarrow> Inl e
           | Inr s1 \<Rightarrow>
               (let s2 = main_columns_7_8 (main_columns_1_6 s1)
                in Inr (s2, do_moody_consistency_checks s2))))"

section \<open>Auxiliary notions for the proofs\<close>

text \<open>Two states that differ at most in column \<open>c\<close> of table \<open>i\<close>.\<close>

definition same_but :: "nat \<Rightarrow> nat \<Rightarrow> state \<Rightarrow> state \<Rightarrow> bool" where
  "same_but i c s t \<longleftrightarrow>
     num_dat t = num_dat s \<and> metric t = metric s \<and> foot_spacing t = foot_spacing s \<and>
     (\<forall>i' c' j'. (i' \<noteq> i \<or> c' \<noteq> c) \<longrightarrow> ws t i' c' j' = ws s i' c' j')"

text \<open>Two states that differ at most in column \<open>c\<close> of the tables.\<close>

definition same_but_column :: "nat \<Rightarrow> state \<Rightarrow> state \<Rightarrow> bool" where
  "same_but_column c s t \<longleftrightarrow>
     num_dat t = num_dat s \<and> metric t = metric s \<and> foot_spacing t = foot_spacing s \<and>
     (\<forall>i c' j. c' \<noteq> c \<longrightarrow> ws t i c' j = ws s i c' j)"

text \<open>The buffers of a file that are neither blank nor comments, and whether each parses.\<close>

definition data_lines :: "string list \<Rightarrow> string list" where
  "data_lines bufs = filter (\<lambda>buf. \<not> comment_or_end (skip_space buf)) bufs"

definition all_parse :: "(string \<Rightarrow> int \<times> real) \<Rightarrow> string list \<Rightarrow> bool" where
  "all_parse sscanf bufs \<longleftrightarrow>
     list_all (\<lambda>buf. fst (sscanf (skip_space buf)) = 1) (data_lines bufs)"

section \<open>A worked example\<close>

text \<open>
  A small set of input files: the two diagonals read 5, 15, 35 arc seconds, the east-west
  center line reads 0, 100, 0, 0 (with a blank line in the file), every other line reads
  0, 0, 0; the configuration asks for metric output with a 66 mm foot spacing.  The two
  scanners return what \<^verbatim>\<open>sscanf\<close> returns on the texts of these files.
\<close>

definition line :: "string \<Rightarrow> string" where
  "line text = text @ [newline]"

definition example_sscanf :: "string \<Rightarrow> int \<times> real" where
  "example_sscanf head =
     (if head = line ''0'' then (1, 0)
      else if head = line ''5'' then (1, 5)
      else if head = line ''15'' then (1, 15)
      else if head = line ''35'' then (1, 35)
      else if head = line ''100'' then (1, 100)
      else (0, 0))"

definition example_sscanf_config :: "string \<Rightarrow> int \<times> char \<times> real" where
  "example_sscanf_config head =
     (if head = line ''M 66'' then (2, CHR ''M'', 66) else (0, CHR ''?'', 0))"

definition example_fopen :: "string \<Rightarrow> string list option" where
  "example_fopen fname =
     (if fname = ''Config.txt'' then Some [line ''# foot spacing'', line ''M 66'']
      else if fname = ''NW_SE.txt'' \<or> fname = ''NE_SW.txt''
        then Some [line ''5'', line ''  15'', line ''35'']
      else if fname = ''E_W.txt''
        then Some [line ''0'', line ''100'', line [], line ''0'', line ''0'']
      else if fname \<in> set filenames then Some [line ''0'', line ''0'', line ''0'']
      else None)"

text \<open>The globals after the configuration file, and after the eight data files.\<close>

definition example_config :: state where
  "example_config = initial\<lparr>metric := 1, foot_spacing := 66\<rparr>"

definition example_sheets :: state where
  "example_sheets =
     \<lparr>ws = (\<lambda>i c j. if c = 1 \<and> i < 2 \<and> j = 1 then 5
                      else if c = 1 \<and> i < 2 \<and> j = 2 then 15
                      else if c = 1 \<and> i < 2 \<and> j = 3 then 35
                      else if c = 1 \<and> i = 6 \<and> j = 2 then 100
                      else 0),
      num_dat = (\<lambda>i. if i = 6 then 4 else if i < 8 then 3 else 0),
      metric = 1, foot_spacing = 66\<rparr>"

text \<open>The globals of the example after each stage of \<open>main\<close>.\<close>

definition example_first_four :: state where
  "example_first_four = fold first_four_columns [0..<8] example_sheets"

definition example_diagonals :: state where
  "example_diagonals = fold diagonal_correction [0..<2] example_first_four"

definition example_seeded :: state where
  "example_seeded = seed_perimeter example_diagonals"

definition example_perimeter :: state where
  "example_perimeter = fold shift_lines [2..<6] example_seeded"

definition example_center_seeded :: state where
  "example_center_seeded = seed_center example_perimeter"

definition example_center :: state where
  "example_center = fold shift_lines [6..<8] example_center_seeded"

definition example_final :: state where
  "example_final = main_columns_7_8 example_center"

text \<open>A data file of 126 readings, and one of 125, whatever the name asked for.\<close>

definition fopen_126 :: "string \<Rightarrow> string list option" where
  "fopen_126 fname = Some (replicate 126 (line ''0''))"

definition fopen_125 :: "string \<Rightarrow> string list option" where
  "fopen_125 fname = Some (replicate 125 (line ''0''))"

section \<open>Properties of the routines\<close>

subsection \<open>Cells and loops\<close>

lemma ws_store [simp]:
  "ws (store i c j v s) i' c' j' = (if i' = i \<and> c' = c \<and> j' = j then v else ws s i' c' j')"
  by (simp add: store_def)

lemma num_dat_store [simp]: "num_dat (store i c j v s) = num_dat s"
  by (simp add: store_def)

lemma metric_store [simp]: "metric (store i c j v s) = metric s"
  by (simp add: store_def)

lemma foot_spacing_store [simp]: "foot_spacing (store i c j v s) = foot_spacing s"
  by (simp add: store_def)

lemma same_but_refl [simp]: "same_but i c s s"
  by (simp add: same_but_def)

lemma same_but_store: "same_but i c s t \<Longrightarrow> same_but i c s (store i c j v t)"
  by (auto simp: same_but_def)

lemma fold_store_same_but:
  "same_but i c s t \<Longrightarrow> same_but i c s (fold (\<lambda>j t. store i c j (g j t) t) js t)"
  by (induction js arbitrary: t) (simp_all add: same_but_store)

lemma fold_store_cells:
  assumes g: "\<And>j t. same_but i c s t \<Longrightarrow> g j t = g j s"
    and t: "same_but i c s t"
  shows "ws (fold (\<lambda>j t. store i c j (g j t) t) js t) i c j' =
           (if j' \<in> set js then g j' s else ws t i c j')"
  using t
proof (induction js arbitrary: t)
  case Nil
  then show ?case by simp
next
  case (Cons j js)
  have "same_but i c s (store i c j (g j t) t)"
    using Cons.prems by (rule same_but_store)
  from Cons.IH [OF this] show ?case
    using g [OF Cons.prems] by simp
qed

lemma fold_store_ws:
  assumes g: "\<And>j t. same_but i c s t \<Longrightarrow> g j t = g j s"
  shows "ws (fold (\<lambda>j t. store i c j (g j t) t) js s) i' c' j' =
           (if i' = i \<and> c' = c \<and> j' \<in> set js then g j' s else ws s i' c' j')"
proof (cases "i' = i \<and> c' = c")
  case True
  then show ?thesis
    using fold_store_cells [of i c s g s js j', OF g] by simp
next
  case False
  have "same_but i c s (fold (\<lambda>j t. store i c j (g j t) t) js s)"
    by (rule fold_store_same_but) simp
  with False show ?thesis by (auto simp: same_but_def)
qed


lemma same_butD:
  "same_but i c s t \<Longrightarrow> i' \<noteq> i \<or> c' \<noteq> c \<Longrightarrow> ws t i' c' j' = ws s i' c' j'"
  by (simp add: same_but_def)

lemma same_but_globals:
  "same_but i c s t \<Longrightarrow> num_dat t = num_dat s"
  "same_but i c s t \<Longrightarrow> metric t = metric s"
  "same_but i c s t \<Longrightarrow> foot_spacing t = foot_spacing s"
  by (simp_all add: same_but_def)

subsection \<open>first_four_columns\<close>

text \<open>The running sum of column 4, as a loop of its own.\<close>

lemma sum_loop_same_but:
  "same_but i 3 s (fold (\<lambda>j t. store i 3 j (ws t i 3 (j - 1) + ws t i 2 j) t) js s)"
  by (rule fold_store_same_but) simp

lemma sum_loop_rec:
  "ws (fold (\<lambda>j t. store i 3 j (ws t i 3 (j - 1) + ws t i 2 j) t) [2..<n] s) i 3 j =
     (if 2 \<le> j \<and> j < n
      then ws (fold (\<lambda>j t. store i 3 j (ws t i 3 (j - 1) + ws t i 2 j) t) [2..<n] s) i 3 (j - 1)
             + ws s i 2 j
      else ws s i 3 j)"
proof (induction n arbitrary: j)
  case 0
  then show ?case by simp
next
  case (Suc n)
  let ?f = "\<lambda>j t. store i 3 j (ws t i 3 (j - 1) + ws t i 2 j) t"
  show ?case
  proof (cases "2 \<le> n")
    case False
    then show ?thesis by simp
  next
    case True
    have c2: "ws (fold ?f [2..<n] s) i 2 n = ws s i 2 n"
      using sum_loop_same_but [of i s "[2..<n]"] by (simp add: same_butD)
    have step: "fold ?f [2..<Suc n] s = ?f n (fold ?f [2..<n] s)"
      using True by simp
    have old: "ws (fold ?f [2..<n] s) i 3 n = ws s i 3 n"
      using Suc.IH [of n] by simp
    show ?thesis
    proof (cases "j = n")
      case True
      with \<open>2 \<le> n\<close> c2 show ?thesis
        unfolding step by auto
    next
      case False
      with \<open>2 \<le> n\<close> Suc.IH [of j] show ?thesis
        unfolding step by auto
    qed
  qed
qed

lemma first_four_columns_facts:
  fixes i s
  defines "N \<equiv> num_dat s i" and "s' \<equiv> first_four_columns i s"
  shows ffc_same: "i' \<noteq> i \<or> (c' \<noteq> 0 \<and> c' \<noteq> 2 \<and> c' \<noteq> 3) \<Longrightarrow> ws s' i' c' j' = ws s i' c' j'"
    and ffc_col1: "ws s' i 0 j = (if j \<le> N then real (j + 1) else ws s i 0 j)"
    and ffc_col3: "ws s' i 2 j = (if 1 \<le> j \<and> j \<le> N then ws s i 1 j - ws s i 1 1 else ws s i 2 j)"
    and ffc_col4_0: "ws s' i 3 0 = 0"
    and ffc_col4_1: "ws s' i 3 1 = 0"
    and ffc_col4_rec: "2 \<le> j \<Longrightarrow> j \<le> N \<Longrightarrow> ws s' i 3 j = ws s' i 3 (j - 1) + ws s' i 2 j"
    and ffc_col4_beyond: "N < j \<Longrightarrow> 2 \<le> j \<Longrightarrow> ws s' i 3 j = ws s i 3 j"
    and ffc_num_dat: "num_dat s' = num_dat s"
    and ffc_metric: "metric s' = metric s"
    and ffc_foot_spacing: "foot_spacing s' = foot_spacing s"
proof -
  let ?g1 = "\<lambda>j (t::state). real (j + 1)"
  let ?g2 = "\<lambda>j t. ws t i 1 j - ws t i 1 1"
  let ?f3 = "\<lambda>j t. store i 3 j (ws t i 3 (j - 1) + ws t i 2 j) t"
  define s1 where "s1 = fold (\<lambda>j t. store i 0 j (?g1 j t) t) [0..<N + 1] s"
  define s2 where "s2 = fold (\<lambda>j t. store i 2 j (?g2 j t) t) [1..<N + 1] s1"
  define s4 where "s4 = store i 3 1 0 (store i 3 0 0 s2)"
  define s5 where "s5 = fold ?f3 [2..<N + 1] s4"
  have s': "s' = s5"
    by (simp add: s'_def first_four_columns_def Let_def s5_def s4_def s2_def s1_def N_def)
  have b1: "same_but i 0 s s1"
    unfolding s1_def by (rule fold_store_same_but) simp
  have b2: "same_but i 2 s1 s2"
    unfolding s2_def by (rule fold_store_same_but) simp
  have b4: "same_but i 3 s2 s4"
    unfolding s4_def by (intro same_but_store same_but_refl)
  have b5: "same_but i 3 s4 s5"
    unfolding s5_def by (rule sum_loop_same_but)
  have w1: "ws s1 i' c' j' = (if i' = i \<and> c' = 0 \<and> j' \<in> set [0..<N + 1] then ?g1 j' s else ws s i' c' j')"
    for i' c' j'
    unfolding s1_def by (rule fold_store_ws) simp
  have "\<And>j t. same_but i 2 s1 t \<Longrightarrow> ?g2 j t = ?g2 j s1"
    by (simp add: same_butD)
  then have w2: "ws s2 i' c' j' = (if i' = i \<and> c' = 2 \<and> j' \<in> set [1..<N + 1] then ?g2 j' s1 else ws s1 i' c' j')"
    for i' c' j'
    unfolding s2_def by (rule fold_store_ws)
  have w4: "ws s4 i' c' j' = (if i' = i \<and> c' = 3 \<and> (j' = 0 \<or> j' = 1) then 0 else ws s2 i' c' j')"
    for i' c' j'
    by (auto simp: s4_def)
  have w5: "ws s5 i 3 j = (if 2 \<le> j \<and> j < N + 1 then ws s5 i 3 (j - 1) + ws s4 i 2 j else ws s4 i 3 j)"
    for j
    unfolding s5_def by (rule sum_loop_rec)
  have w5': "i' \<noteq> i \<or> c' \<noteq> 3 \<Longrightarrow> ws s5 i' c' j' = ws s4 i' c' j'" for i' c' j'
    using b5 by (rule same_butD)
  show "i' \<noteq> i \<or> (c' \<noteq> 0 \<and> c' \<noteq> 2 \<and> c' \<noteq> 3) \<Longrightarrow> ws s' i' c' j' = ws s i' c' j'"
    unfolding s' by (auto simp: w5' w4 w2 w1)
  show "ws s' i 0 j = (if j \<le> N then real (j + 1) else ws s i 0 j)"
    unfolding s' by (auto simp: w5' w4 w2 w1)
  show c3: "ws s' i 2 j = (if 1 \<le> j \<and> j \<le> N then ws s i 1 j - ws s i 1 1 else ws s i 2 j)" for j
    unfolding s' by (auto simp: w5' w4 w2 w1)
  show "ws s' i 3 0 = 0"
    unfolding s' using w5 [of 0] by (simp add: w4)
  show "ws s' i 3 1 = 0"
    unfolding s' using w5 [of 1] by (simp add: w4)
  show "2 \<le> j \<Longrightarrow> j \<le> N \<Longrightarrow> ws s' i 3 j = ws s' i 3 (j - 1) + ws s' i 2 j"
    unfolding s' using w5 [of j] by (simp add: w5')
  show "N < j \<Longrightarrow> 2 \<le> j \<Longrightarrow> ws s' i 3 j = ws s i 3 j"
    unfolding s' using w5 [of j] by (simp add: w4 w2 w1)
  show "num_dat s' = num_dat s" "metric s' = metric s" "foot_spacing s' = foot_spacing s"
    unfolding s' using b1 b2 b4 b5 by (simp_all add: same_but_def)
qed

subsection \<open>mid_value\<close>

lemma mid_value_cong:
  assumes "num_dat t i = num_dat s i"
    and "\<And>j. j \<le> num_dat s i \<Longrightarrow> ws t i c j = ws s i c' j"
  shows "mid_value i c t = mid_value i c' s"
proof -
  have "num_dat s i div 2 \<le> num_dat s i" "(num_dat s i - 1) div 2 \<le> num_dat s i"
    by simp_all
  moreover have "num_dat s i mod 2 \<noteq> 0 \<Longrightarrow> (num_dat s i + 1) div 2 \<le> num_dat s i"
    by presburger
  ultimately show ?thesis
    using assms by (simp add: mid_value_def Let_def)
qed

lemma mid_value_affine:
  assumes n: "num_dat t i = num_dat s i"
    and w: "\<And>j. j \<le> num_dat s i \<Longrightarrow> ws t i c j = ws s i c' j + (a * real j + b)"
  shows "mid_value i c t = mid_value i c' s + (a * real (num_dat s i) / 2 + b)"
proof (cases "num_dat s i mod 2 = 0")
  case True
  then have "real (num_dat s i div 2) = real (num_dat s i) / 2"
    by (simp add: real_of_nat_div mod_eq_0_iff_dvd)
  with True n w [of "num_dat s i div 2"] show ?thesis
    by (simp add: mid_value_def Let_def)
next
  case False
  then obtain k where k: "num_dat s i = 2 * k + 1"
    by (metis mod_2_eq_odd oddE parity_cases)
  have "(num_dat s i - 1) div 2 = k" "(num_dat s i + 1) div 2 = k + 1"
    using k by simp_all
  with False n w [of k] w [of "k + 1"] k show ?thesis
    by (simp add: mid_value_def Let_def field_simps)
qed

lemma mid_value_shift:
  assumes n: "num_dat t i = num_dat s i"
    and w: "\<And>j. j \<le> num_dat s i \<Longrightarrow> ws t i c j = ws s i c' j - z"
  shows "mid_value i c t = mid_value i c' s - z"
  using mid_value_affine [of t i s c c' 0 "- z"] n w by simp

subsection \<open>diagonal_correction\<close>

lemma diagonal_step_same:
  "num_dat (diagonal_step sh a b j s) = num_dat s"
  "metric (diagonal_step sh a b j s) = metric s"
  "foot_spacing (diagonal_step sh a b j s) = foot_spacing s"
  by (simp_all add: diagonal_step_def Let_def)

lemma diagonal_loop_globals:
  "num_dat (fold (diagonal_step sh a b) js s) = num_dat s"
  "metric (fold (diagonal_step sh a b) js s) = metric s"
  "foot_spacing (fold (diagonal_step sh a b) js s) = foot_spacing s"
  by (induction js arbitrary: s) (simp_all add: diagonal_step_same)

lemma diagonal_loop_ws:
  "ws (fold (diagonal_step sh a b) [0..<n] s) i' c' j' =
     (if i' = sh \<and> j' < n \<and> c' = 4 then a * real j' + b
      else if i' = sh \<and> j' < n \<and> c' = 5 then ws s sh 3 j' + (a * real j' + b)
      else ws s i' c' j')"
proof (induction n arbitrary: i' c' j')
  case 0
  then show ?case by simp
next
  case (Suc n)
  then show ?case
    by (auto simp: diagonal_step_def Let_def)
qed

lemma diagonal_correction_facts:
  fixes sh s
  defines "N \<equiv> num_dat s sh" and "s' \<equiv> diagonal_correction sh s"
  defines "a \<equiv> - 1.0 * ws s sh 3 N / real N"
    and "b \<equiv> 0.5 * ws s sh 3 N - mid_value sh 3 s"
  shows dc_ws: "ws s' i' c' j' =
     (if i' = sh \<and> j' \<le> N \<and> c' = 4 then a * real j' + b
      else if i' = sh \<and> j' \<le> N \<and> c' = 5 then ws s sh 3 j' + (a * real j' + b)
      else ws s i' c' j')"
    and dc_num_dat: "num_dat s' = num_dat s"
    and dc_metric: "metric s' = metric s"
    and dc_foot_spacing: "foot_spacing s' = foot_spacing s"
proof -
  have s': "s' = fold (diagonal_step sh a b) [0..<N + 1] s"
    by (simp add: s'_def diagonal_correction_def Let_def a_def b_def N_def)
  show "ws s' i' c' j' =
     (if i' = sh \<and> j' \<le> N \<and> c' = 4 then a * real j' + b
      else if i' = sh \<and> j' \<le> N \<and> c' = 5 then ws s sh 3 j' + (a * real j' + b)
      else ws s i' c' j')"
    unfolding s' diagonal_loop_ws by auto
  show "num_dat s' = num_dat s" "metric s' = metric s" "foot_spacing s' = foot_spacing s"
    unfolding s' by (rule diagonal_loop_globals)+
qed

lemma diagonal_correction_mid:
  assumes "0 < num_dat s sh"
  shows "mid_value sh 5 (diagonal_correction sh s) = 0"
proof -
  define N where "N = num_dat s sh"
  define a where "a = - 1.0 * ws s sh 3 N / real N"
  define b where "b = 0.5 * ws s sh 3 N - mid_value sh 3 s"
  have "mid_value sh 5 (diagonal_correction sh s)
          = mid_value sh 3 s + (a * real (num_dat s sh) / 2 + b)"
    by (rule mid_value_affine) (simp_all add: dc_ws dc_num_dat a_def b_def N_def)
  also have "\<dots> = 0"
    using assms by (simp add: a_def b_def N_def)
  finally show ?thesis .
qed

lemma diagonal_correction_ends:
  assumes "0 < num_dat s sh" and "ws s sh 3 0 = 0"
  shows "ws (diagonal_correction sh s) sh 5 0 = 0.5 * ws s sh 3 (num_dat s sh) - mid_value sh 3 s"
    and "ws (diagonal_correction sh s) sh 5 (num_dat s sh)
           = 0.5 * ws s sh 3 (num_dat s sh) - mid_value sh 3 s"
  using assms by (simp_all add: dc_ws)

subsection \<open>shift_lines\<close>

lemma shift_step_globals:
  "num_dat (shift_step i c j s) = num_dat s"
  "metric (shift_step i c j s) = metric s"
  "foot_spacing (shift_step i c j s) = foot_spacing s"
  by (simp_all add: shift_step_def Let_def)

lemma shift_loop_globals:
  "num_dat (fold (shift_step i c) js s) = num_dat s"
  "metric (fold (shift_step i c) js s) = metric s"
  "foot_spacing (fold (shift_step i c) js s) = foot_spacing s"
  by (induction js arbitrary: s) (simp_all add: shift_step_globals)

lemma shift_step_ws:
  "ws (shift_step i c j s) i' c' j' =
     (if i' = i \<and> j' = j \<and> c' = 4 then ws s i 4 (j + 1) + c
      else if i' = i \<and> j' = j \<and> c' = 5 then ws s i 4 (j + 1) + c + ws s i 3 j
      else ws s i' c' j')"
  by (simp add: shift_step_def Let_def)

lemma shift_loop_ws:
  "ws (fold (shift_step i c) (rev [1..<n]) s) i' c' j' =
     (if i' = i \<and> 1 \<le> j' \<and> j' < n \<and> c' = 4 then ws s i 4 n + real (n - j') * c
      else if i' = i \<and> 1 \<le> j' \<and> j' < n \<and> c' = 5
           then ws s i 4 n + real (n - j') * c + ws s i 3 j'
      else ws s i' c' j')"
proof (induction n arbitrary: s i' c' j')
  case 0
  then show ?case by simp
next
  case (Suc n)
  show ?case
  proof (cases "n = 0")
    case True
    then show ?thesis by simp
  next
    case False
    then have step: "fold (shift_step i c) (rev [1..<Suc n]) s
        = fold (shift_step i c) (rev [1..<n]) (shift_step i c n s)"
      by simp
    show ?thesis
      unfolding step Suc.IH shift_step_ws
      using False by (auto simp: of_nat_diff algebra_simps Suc_diff_le)
  qed
qed

lemma shift_lines_facts:
  fixes i s
  defines "N \<equiv> num_dat s i"
  defines "e \<equiv> ws s i 5 N - ws s i 3 N"
  defines "c \<equiv> ((if N = 0 then e else ws s i 4 0) - e) / real N"
  defines "s' \<equiv> shift_lines i s"
  shows sl_ws: "c' \<noteq> 8 \<or> i' \<noteq> i \<or> (i \<noteq> 6 \<and> i \<noteq> 7) \<Longrightarrow>
     ws s' i' c' j' =
       (if i' = i \<and> c' = 4 \<and> j' = N then e
        else if i' = i \<and> 1 \<le> j' \<and> j' < N \<and> c' = 4 then e + real (N - j') * c
        else if i' = i \<and> 1 \<le> j' \<and> j' < N \<and> c' = 5 then e + real (N - j') * c + ws s i 3 j'
        else ws s i' c' j')"
    and sl_6a: "i = 6 \<or> i = 7 \<Longrightarrow>
      ws s' i 8 j = (if j \<le> N then ws s' i 5 j - mid_value i 5 s' else ws s i 8 j)"
    and sl_num_dat: "num_dat s' = num_dat s"
    and sl_metric: "metric s' = metric s"
    and sl_foot_spacing: "foot_spacing s' = foot_spacing s"
proof -
  define s1 where "s1 = store i 4 N e s"
  define s2 where "s2 = fold (shift_step i c) (rev [1..<N]) s1"
  define z where "z = mid_value i 5 s2"
  let ?g = "\<lambda>j t. ws t i 5 j - z"
  define s3 where "s3 = fold (\<lambda>j t. store i 8 j (?g j t) t) [0..<N + 1] s2"
  have c: "c = (ws s1 i 4 0 - ws s1 i 4 N) / real N"
    by (simp add: c_def s1_def)
  have s': "s' = (if i = 6 \<or> i = 7 then s3 else s2)"
    unfolding s'_def shift_lines_def Let_def s3_def z_def s2_def c
    by (simp add: s1_def e_def N_def)
  have w2: "ws s2 i' c' j' =
       (if i' = i \<and> c' = 4 \<and> j' = N then e
        else if i' = i \<and> 1 \<le> j' \<and> j' < N \<and> c' = 4 then e + real (N - j') * c
        else if i' = i \<and> 1 \<le> j' \<and> j' < N \<and> c' = 5 then e + real (N - j') * c + ws s i 3 j'
        else ws s i' c' j')" for i' c' j'
    unfolding s2_def shift_loop_ws by (auto simp: s1_def)
  have g2: "num_dat s2 = num_dat s" "metric s2 = metric s" "foot_spacing s2 = foot_spacing s"
    by (simp_all add: s2_def shift_loop_globals s1_def)
  have b3: "same_but i 8 s2 s3"
    unfolding s3_def by (rule fold_store_same_but) simp
  have "\<And>j t. same_but i 8 s2 t \<Longrightarrow> ?g j t = ?g j s2"
    by (simp add: same_butD)
  then have w3: "ws s3 i' c' j' =
      (if i' = i \<and> c' = 8 \<and> j' \<in> set [0..<N + 1] then ?g j' s2 else ws s2 i' c' j')" for i' c' j'
    unfolding s3_def by (rule fold_store_ws)
  have m3: "mid_value i 5 s3 = z"
    unfolding z_def
    by (rule mid_value_cong) (simp_all add: same_but_globals [OF b3] same_butD [OF b3])
  have w3': "i' \<noteq> i \<or> c' \<noteq> 8 \<Longrightarrow> ws s3 i' c' j' = ws s2 i' c' j'" for i' c' j'
    using b3 by (rule same_butD)
  show "ws s' i' c' j' =
       (if i' = i \<and> c' = 4 \<and> j' = N then e
        else if i' = i \<and> 1 \<le> j' \<and> j' < N \<and> c' = 4 then e + real (N - j') * c
        else if i' = i \<and> 1 \<le> j' \<and> j' < N \<and> c' = 5 then e + real (N - j') * c + ws s i 3 j'
        else ws s i' c' j')"
    if h: "c' \<noteq> 8 \<or> i' \<noteq> i \<or> (i \<noteq> 6 \<and> i \<noteq> 7)"
  proof (cases "i = 6 \<or> i = 7")
    case True
    with h have "i' \<noteq> i \<or> c' \<noteq> 8" by blast
    then have "ws s3 i' c' j' = ws s2 i' c' j'" by (rule w3')
    with True show ?thesis unfolding s' by (simp only: w2 if_True)
  next
    case False
    then show ?thesis unfolding s' by (simp only: w2 if_False)
  qed
  show "ws s' i 8 j = (if j \<le> N then ws s' i 5 j - mid_value i 5 s' else ws s i 8 j)"
    if h: "i = 6 \<or> i = 7"
  proof -
    have 1: "s' = s3" using h by (simp add: s')
    have 2: "ws s3 i 5 j = ws s2 i 5 j" by (rule w3') simp
    have 3: "ws s2 i 8 j = ws s i 8 j" by (simp add: w2)
    show ?thesis
      unfolding 1 m3 2 using w3 [of i 8 j] 3 by auto
  qed
  show "num_dat s' = num_dat s" "metric s' = metric s" "foot_spacing s' = foot_spacing s"
    unfolding s' using g2 same_but_globals [OF b3] by simp_all
qed

lemma shift_lines_mid_6a:
  assumes "i = 6 \<or> i = 7"
  shows "mid_value i 8 (shift_lines i s) = 0"
proof -
  have "mid_value i 8 (shift_lines i s)
          = mid_value i 5 (shift_lines i s) - mid_value i 5 (shift_lines i s)"
    by (rule mid_value_shift) (simp_all add: sl_6a [OF assms] sl_num_dat)
  then show ?thesis by simp
qed

subsection \<open>Reading the files\<close>

lemma data_lines_simps [simp]:
  "data_lines [] = []"
  "data_lines (buf # bufs) =
     (if comment_or_end (skip_space buf) then data_lines bufs else buf # data_lines bufs)"
  by (simp_all add: data_lines_def)

lemma all_parse_simps [simp]:
  "all_parse sscanf [] = True"
  "all_parse sscanf (buf # bufs) =
     (if comment_or_end (skip_space buf) then all_parse sscanf bufs
      else fst (sscanf (skip_space buf)) = 1 \<and> all_parse sscanf bufs)"
  by (simp_all add: all_parse_def)

lemma read_lines_too_many:
  assumes "all_parse sscanf bufs"
    and "MAX_STATIONS - 2 \<le> n + length (data_lines bufs)"
    and "data_lines bufs \<noteq> []"
  shows "read_lines sscanf f bufs fl n s
           = Inl (Too_many_stations (MAX_STATIONS - 2) (filenames ! f))"
  using assms
proof (induction bufs arbitrary: fl n s)
  case Nil
  then show ?case by simp
next
  case (Cons buf bufs)
  show ?case
  proof (cases "comment_or_end (skip_space buf)")
    case True
    with Cons show ?thesis by simp
  next
    case False
    obtain ret x where r: "sscanf (skip_space buf) = (ret, x)" by force
    with False Cons.prems have ret: "ret = 1" by simp
    show ?thesis
    proof (cases "MAX_STATIONS - 2 \<le> n + 1")
      case True
      with False r ret show ?thesis by (simp add: Let_def)
    next
      case nf: False
      with False Cons.prems have "MAX_STATIONS - 2 \<le> (n + 1) + length (data_lines bufs)"
        and "data_lines bufs \<noteq> []" and "all_parse sscanf bufs"
        by auto
      from Cons.IH [OF this(3) this(1) this(2)] nf False r ret show ?thesis
        by (simp add: Let_def)
    qed
  qed
qed

lemma read_lines_fits:
  assumes "all_parse sscanf bufs"
    and "n + length (data_lines bufs) < MAX_STATIONS - 2"
  shows "\<exists>s'. read_lines sscanf f bufs fl n s = Inr (n + length (data_lines bufs), s')
           \<and> num_dat s' = num_dat s \<and> metric s' = metric s \<and> foot_spacing s' = foot_spacing s
           \<and> (\<forall>i c j. ws s' i c j =
                (if i = f \<and> c = 1 \<and> n < j \<and> j \<le> n + length (data_lines bufs)
                 then snd (sscanf (skip_space (data_lines bufs ! (j - n - 1))))
                 else ws s i c j))"
  using assms
proof (induction bufs arbitrary: fl n s)
  case Nil
  then show ?case by simp
next
  case (Cons buf bufs)
  show ?case
  proof (cases "comment_or_end (skip_space buf)")
    case True
    then have 1: "read_lines sscanf f (buf # bufs) fl n s = read_lines sscanf f bufs (fl + 1) n s"
      and 2: "data_lines (buf # bufs) = data_lines bufs"
      by simp_all
    from True Cons.prems have "all_parse sscanf bufs"
      and "n + length (data_lines bufs) < MAX_STATIONS - 2"
      by simp_all
    then show ?thesis unfolding 1 2 by (rule Cons.IH)
  next
    case False
    obtain ret x where r: "sscanf (skip_space buf) = (ret, x)" by force
    with False Cons.prems have ret: "ret = 1" by simp
    from False Cons.prems have fit: "(n + 1) + length (data_lines bufs) < MAX_STATIONS - 2"
      and ap: "all_parse sscanf bufs" by auto
    from Cons.IH [OF ap fit, of "fl + 1" "store f 1 (n + 1) x s"]
    obtain s' where s': "read_lines sscanf f bufs (fl + 1) (n + 1) (store f 1 (n + 1) x s)
          = Inr (n + 1 + length (data_lines bufs), s')"
      "num_dat s' = num_dat s" "metric s' = metric s" "foot_spacing s' = foot_spacing s"
      "\<And>i c j. ws s' i c j =
                (if i = f \<and> c = 1 \<and> n + 1 < j \<and> j \<le> n + 1 + length (data_lines bufs)
                 then snd (sscanf (skip_space (data_lines bufs ! (j - (n + 1) - 1))))
                 else ws (store f 1 (n + 1) x s) i c j)"
      by auto
    have "read_lines sscanf f (buf # bufs) fl n s
            = Inr (n + length (data_lines (buf # bufs)), s')"
      using False r ret fit s'(1) by (simp add: Let_def)
    moreover have "ws s' i c j =
                (if i = f \<and> c = 1 \<and> n < j \<and> j \<le> n + length (data_lines (buf # bufs))
                 then snd (sscanf (skip_space (data_lines (buf # bufs) ! (j - n - 1))))
                 else ws s i c j)" for i c j
    proof (cases "j = n + 1")
      case True
      then show ?thesis using False r by (simp add: s'(5))
    next
      case nj: False
      then have "n < j \<Longrightarrow> j - n - 1 = Suc (j - (n + 1) - 1)" by simp
      with nj show ?thesis using False by (auto simp: s'(5))
    qed
    ultimately show ?thesis using s'(2-4) by blast
  qed
qed

lemma upt_0_8: "[0..<8] = [0, 1, 2, 3, 4, 5, 6, 7]"
  by code_simp

lemma upt_small:
  "[0..<2] = [0, 1]" "[2..<6] = [2, 3, 4, 5]" "[6..<8] = [6, 7]" "[0..<6] = [0, 1, 2, 3, 4, 5]"
  by code_simp+

lemma skip_space_line [simp]:
  "skip_space (line ''0'') = line ''0''"
  "skip_space (line ''5'') = line ''5''"
  "skip_space (line ''  15'') = line ''15''"
  "skip_space (line ''35'') = line ''35''"
  "skip_space (line ''100'') = line ''100''"
  "skip_space (line []) = line []"
  "skip_space (line ''M 66'') = line ''M 66''"
  "skip_space (line ''# foot spacing'') = line ''# foot spacing''"
  by (simp_all add: skip_space_def line_def isspace_def newline_def)

lemma comment_or_end_line [simp]:
  "\<not> comment_or_end (line ''0'')"
  "\<not> comment_or_end (line ''5'')"
  "\<not> comment_or_end (line ''15'')"
  "\<not> comment_or_end (line ''35'')"
  "\<not> comment_or_end (line ''100'')"
  "comment_or_end (line [])"
  "\<not> comment_or_end (line ''M 66'')"
  "comment_or_end (line ''# foot spacing'')"
  by (simp_all add: comment_or_end_def line_def newline_def)

lemma example_sscanf_line [simp]:
  "example_sscanf (line ''0'') = (1, 0)"
  "example_sscanf (line ''5'') = (1, 5)"
  "example_sscanf (line ''15'') = (1, 15)"
  "example_sscanf (line ''35'') = (1, 35)"
  "example_sscanf (line ''100'') = (1, 100)"
  by (simp_all add: example_sscanf_def line_def)

lemma example_read_config:
  "read_config_file example_sscanf_config example_fopen initial = Inr example_config"
  by (simp add: read_config_file_def example_fopen_def example_sscanf_config_def Let_def
      example_config_def)

lemma example_read_all:
  "read_all example_sscanf example_fopen [0..<8] example_config = Inr example_sheets"
  unfolding upt_0_8
  apply (simp add: read_data_def example_fopen_def filenames_def Let_def MAX_STATIONS_def)
  apply (simp add: example_sheets_def example_config_def initial_def store_def fun_eq_iff)
  done

lemma example_sheets_simps [simp]:
  "ws example_sheets i c j =
     (if c = 1 \<and> i < 2 \<and> j = 1 then 5
      else if c = 1 \<and> i < 2 \<and> j = 2 then 15
      else if c = 1 \<and> i < 2 \<and> j = 3 then 35
      else if c = 1 \<and> i = 6 \<and> j = 2 then 100
      else 0)"
  "num_dat example_sheets i = (if i = 6 then 4 else if i < 8 then 3 else 0)"
  "metric example_sheets = 1"
  "foot_spacing example_sheets = 66"
  by (simp_all add: example_sheets_def)

lemma data_lines_replicate [simp]:
  "data_lines (replicate n (line ''0'')) = replicate n (line ''0'')"
  by (induction n) simp_all

lemma all_parse_replicate [simp]:
  "all_parse example_sscanf (replicate n (line ''0''))"
  by (induction n) simp_all

lemma read_data_cases:
  assumes o: "fopen (filenames ! f) = Some bufs" and p: "all_parse sscanf bufs"
  defines "n \<equiv> length (data_lines bufs)"
  shows rd_accepts: "3 \<le> n \<Longrightarrow> n < MAX_STATIONS - 2 \<Longrightarrow>
      \<exists>s'. read_data sscanf fopen f s = Inr s' \<and> num_dat s' = (num_dat s)(f := n)
        \<and> metric s' = metric s \<and> foot_spacing s' = foot_spacing s
        \<and> (\<forall>i c j. ws s' i c j =
              (if i = f \<and> c = 1 \<and> 0 < j \<and> j \<le> n
               then snd (sscanf (skip_space (data_lines bufs ! (j - 1))))
               else ws s i c j))"
    and rd_too_few: "n < 3 \<Longrightarrow> read_data sscanf fopen f s = Inl (Too_few_lines n (filenames ! f))"
    and rd_too_many: "MAX_STATIONS - 2 \<le> n \<Longrightarrow>
      read_data sscanf fopen f s = Inl (Too_many_stations (MAX_STATIONS - 2) (filenames ! f))"
proof -
  have fits: "\<exists>s'. read_lines sscanf f bufs 0 0 s = Inr (n, s')
           \<and> num_dat s' = num_dat s \<and> metric s' = metric s \<and> foot_spacing s' = foot_spacing s
           \<and> (\<forall>i c j. ws s' i c j =
                (if i = f \<and> c = 1 \<and> 0 < j \<and> j \<le> n
                 then snd (sscanf (skip_space (data_lines bufs ! (j - 1))))
                 else ws s i c j))"
    if "n < MAX_STATIONS - 2"
  proof -
    from that have "0 + length (data_lines bufs) < MAX_STATIONS - 2" by (simp add: n_def)
    from read_lines_fits [OF p this, of f 0 s] obtain s'
      where a: "read_lines sscanf f bufs 0 0 s = Inr (0 + length (data_lines bufs), s')"
        and g: "num_dat s' = num_dat s" "metric s' = metric s" "foot_spacing s' = foot_spacing s"
        and w: "\<And>i c j. ws s' i c j =
                (if i = f \<and> c = 1 \<and> 0 < j \<and> j \<le> 0 + length (data_lines bufs)
                 then snd (sscanf (skip_space (data_lines bufs ! (j - 0 - 1))))
                 else ws s i c j)"
      by blast
    from a have a': "read_lines sscanf f bufs 0 0 s = Inr (n, s')" by (simp add: n_def)
    have w': "ws s' i c j =
                (if i = f \<and> c = 1 \<and> 0 < j \<and> j \<le> n
                 then snd (sscanf (skip_space (data_lines bufs ! (j - 1))))
                 else ws s i c j)" for i c j
      using w [of i c j] by (simp add: n_def)
    from a' g w' show ?thesis by blast
  qed
  show "\<exists>s'. read_data sscanf fopen f s = Inr s' \<and> num_dat s' = (num_dat s)(f := n)
        \<and> metric s' = metric s \<and> foot_spacing s' = foot_spacing s
        \<and> (\<forall>i c j. ws s' i c j =
              (if i = f \<and> c = 1 \<and> 0 < j \<and> j \<le> n
               then snd (sscanf (skip_space (data_lines bufs ! (j - 1))))
               else ws s i c j))"
    if "3 \<le> n" "n < MAX_STATIONS - 2"
  proof -
    from fits [OF that(2)] obtain s1 where s1: "read_lines sscanf f bufs 0 0 s = Inr (n, s1)"
      "num_dat s1 = num_dat s" "metric s1 = metric s" "foot_spacing s1 = foot_spacing s"
      "\<And>i c j. ws s1 i c j =
                (if i = f \<and> c = 1 \<and> 0 < j \<and> j \<le> n
                 then snd (sscanf (skip_space (data_lines bufs ! (j - 1))))
                 else ws s i c j)"
      by blast
    have "read_data sscanf fopen f s = Inr (s1\<lparr>num_dat := (num_dat s1)(f := n)\<rparr>)"
      using o s1(1) that(1) by (simp add: read_data_def Let_def)
    then show ?thesis
      using s1(2-5) by simp
  qed
  show "read_data sscanf fopen f s = Inl (Too_few_lines n (filenames ! f))" if "n < 3"
  proof -
    from that have "n < MAX_STATIONS - 2" by (simp add: MAX_STATIONS_def)
    from fits [OF this] obtain s1 where "read_lines sscanf f bufs 0 0 s = Inr (n, s1)"
      by blast
    then show ?thesis
      using o that by (simp add: read_data_def Let_def)
  qed
  show "read_data sscanf fopen f s = Inl (Too_many_stations (MAX_STATIONS - 2) (filenames ! f))"
    if "MAX_STATIONS - 2 \<le> n"
  proof -
    from that have "data_lines bufs \<noteq> []" by (auto simp: n_def MAX_STATIONS_def)
    with that p
    have "read_lines sscanf f bufs 0 0 s
            = Inl (Too_many_stations (MAX_STATIONS - 2) (filenames ! f))"
      by (intro read_lines_too_many) (simp_all add: n_def)
    then show ?thesis
      using o by (simp add: read_data_def Let_def)
  qed
qed

lemma read_lines_Inr:
  "read_lines sscanf f bufs fl n s = Inr r \<Longrightarrow>
     all_parse sscanf bufs \<and>
     (data_lines bufs = [] \<or> n + length (data_lines bufs) < MAX_STATIONS - 2)"
proof (induction bufs arbitrary: fl n s)
  case Nil
  then show ?case by simp
next
  case (Cons buf bufs)
  show ?case
  proof (cases "comment_or_end (skip_space buf)")
    case True
    with Cons.prems have "read_lines sscanf f bufs (fl + 1) n s = Inr r" by simp
    from Cons.IH [OF this] True show ?thesis by simp
  next
    case False
    obtain ret x where r: "sscanf (skip_space buf) = (ret, x)" by force
    from Cons.prems False r have ret: "ret = 1"
      by (auto simp: Let_def split: if_splits)
    from Cons.prems False r ret have fit: "\<not> MAX_STATIONS - 2 \<le> n + 1"
      by (auto simp: Let_def split: if_splits)
    with Cons.prems False r ret
    have "read_lines sscanf f bufs (fl + 1) (n + 1) (store f 1 (n + 1) x s) = Inr r"
      by (simp add: Let_def)
    from Cons.IH [OF this] False r ret fit show ?thesis by auto
  qed
qed

lemma read_data_Inr:
  assumes "read_data sscanf fopen f s = Inr s'"
  shows "\<exists>bufs. fopen (filenames ! f) = Some bufs \<and> all_parse sscanf bufs \<and>
           3 \<le> length (data_lines bufs) \<and> length (data_lines bufs) < MAX_STATIONS - 2"
proof -
  from assms obtain bufs where o: "fopen (filenames ! f) = Some bufs"
    by (auto simp: read_data_def Let_def split: option.splits)
  with assms obtain n s1 where r: "read_lines sscanf f bufs 0 0 s = Inr (n, s1)"
    by (auto simp: read_data_def Let_def split: sum.splits)
  from read_lines_Inr [OF r] have p: "all_parse sscanf bufs"
    and d: "data_lines bufs = [] \<or> length (data_lines bufs) < MAX_STATIONS - 2"
    by simp_all
  then have fit: "length (data_lines bufs) < MAX_STATIONS - 2"
    by (auto simp: MAX_STATIONS_def)
  have "3 \<le> length (data_lines bufs)"
  proof (rule ccontr)
    assume "\<not> 3 \<le> length (data_lines bufs)"
    then have "length (data_lines bufs) < 3" by simp
    from rd_too_few [where fopen = fopen and f = f and bufs = bufs and sscanf = sscanf and s = s,
        OF o p this] assms
    show False by simp
  qed
  with o p fit show ?thesis by blast
qed

subsection \<open>The stages of the worked example\<close>


lemmas stage_globals [simp] =
  ffc_num_dat ffc_metric ffc_foot_spacing dc_num_dat dc_metric dc_foot_spacing
  sl_num_dat sl_metric sl_foot_spacing

lemma seed_perimeter_globals [simp]:
  "num_dat (seed_perimeter s) = num_dat s"
  "metric (seed_perimeter s) = metric s"
  "foot_spacing (seed_perimeter s) = foot_spacing s"
  by (simp_all add: seed_perimeter_def Let_def)

lemma seed_center_globals [simp]:
  "num_dat (seed_center s) = num_dat s"
  "metric (seed_center s) = metric s"
  "foot_spacing (seed_center s) = foot_spacing s"
  by (simp_all add: seed_center_def Let_def)

lemma fold_stage_globals [simp]:
  "num_dat (fold first_four_columns is s) = num_dat s"
  "metric (fold first_four_columns is s) = metric s"
  "foot_spacing (fold first_four_columns is s) = foot_spacing s"
  "num_dat (fold diagonal_correction is s) = num_dat s"
  "metric (fold diagonal_correction is s) = metric s"
  "foot_spacing (fold diagonal_correction is s) = foot_spacing s"
  "num_dat (fold shift_lines is s) = num_dat s"
  "metric (fold shift_lines is s) = metric s"
  "foot_spacing (fold shift_lines is s) = foot_spacing s"
  by (induction "is" arbitrary: s) simp_all

lemma example_num_dat [simp]:
  "num_dat example_first_four = num_dat example_sheets"
  "num_dat example_diagonals = num_dat example_sheets"
  "num_dat example_seeded = num_dat example_sheets"
  "num_dat example_perimeter = num_dat example_sheets"
  "num_dat example_center_seeded = num_dat example_sheets"
  "num_dat example_center = num_dat example_sheets"
  by (simp_all add: example_first_four_def example_diagonals_def example_seeded_def
      example_perimeter_def example_center_seeded_def example_center_def)

lemma ffc_col4_Suc0: "ws (first_four_columns i s) i 3 (Suc 0) = 0"
  using ffc_col4_1 [of i s] by simp

lemma example_first_four_col4:
  "ws example_first_four 0 3 0 = 0" "ws example_first_four 0 3 1 = 0"
  "ws example_first_four 0 3 2 = 10" "ws example_first_four 0 3 3 = 40"
  "ws example_first_four 1 3 0 = 0" "ws example_first_four 1 3 1 = 0"
  "ws example_first_four 1 3 2 = 10" "ws example_first_four 1 3 3 = 40"
  "ws example_first_four 6 3 0 = 0" "ws example_first_four 6 3 1 = 0"
  "ws example_first_four 6 3 2 = 100" "ws example_first_four 6 3 3 = 100"
  "ws example_first_four 6 3 4 = 100"
  unfolding example_first_four_def upt_0_8
  by (simp_all add: ffc_same ffc_col3 ffc_col4_0 ffc_col4_Suc0 ffc_col4_rec)

lemma example_first_four_col4_flat:
  "i \<in> {2, 3, 4, 5, 7} \<Longrightarrow> j \<in> {0, 1, 2, 3} \<Longrightarrow> ws example_first_four i 3 j = 0"
  unfolding example_first_four_def upt_0_8
  by (auto simp: ffc_same ffc_col3 ffc_col4_0 ffc_col4_Suc0 ffc_col4_rec)

lemmas example_col4 =
  example_first_four_col4 example_first_four_col4 [simplified] example_first_four_col4_flat

text \<open>The later stages leave column 4 as it is.\<close>

lemma dc_col4 [simp]: "ws (diagonal_correction sh s) i 3 j = ws s i 3 j"
  by (simp add: dc_ws)

lemma sl_col4 [simp]: "ws (shift_lines sh s) i 3 j = ws s i 3 j"
  by (simp add: sl_ws)

lemma seed_col4 [simp]:
  "ws (seed_perimeter s) i 3 j = ws s i 3 j"
  "ws (seed_center s) i 3 j = ws s i 3 j"
  by (simp_all add: seed_perimeter_def seed_center_def Let_def)

lemma fold_col4 [simp]:
  "ws (fold diagonal_correction is s) i 3 j = ws s i 3 j"
  "ws (fold shift_lines is s) i 3 j = ws s i 3 j"
  by (induction "is" arbitrary: s) simp_all

lemma example_later_col4 [simp]:
  "ws example_diagonals i 3 j = ws example_first_four i 3 j"
  "ws example_seeded i 3 j = ws example_first_four i 3 j"
  "ws example_perimeter i 3 j = ws example_first_four i 3 j"
  "ws example_center_seeded i 3 j = ws example_first_four i 3 j"
  "ws example_center i 3 j = ws example_first_four i 3 j"
  by (simp_all add: example_diagonals_def example_seeded_def
      example_perimeter_def example_center_seeded_def example_center_def)

lemma example_mid_col4:
  "mid_value 0 3 example_first_four = 5" "mid_value 1 3 example_first_four = 5"
  by (simp_all add: mid_value_def Let_def example_col4)

lemma example_diagonals_col6:
  "ws example_diagonals 0 5 0 = 15" "ws example_diagonals 0 5 1 = 5 / 3"
  "ws example_diagonals 0 5 2 = - 5 / 3" "ws example_diagonals 0 5 3 = 15"
  "ws example_diagonals 1 5 0 = 15" "ws example_diagonals 1 5 1 = 5 / 3"
  "ws example_diagonals 1 5 2 = - 5 / 3" "ws example_diagonals 1 5 3 = 15"
  unfolding example_diagonals_def upt_small
  by (simp_all add: dc_ws example_col4 mid_value_def Let_def)


lemmas example_diag6 = example_diagonals_col6 example_diagonals_col6 [simplified]

lemma example_seeded_cells:
  "ws example_seeded 2 4 0 = 15" "ws example_seeded 2 5 0 = 15" "ws example_seeded 2 5 3 = 15"
  "ws example_seeded 3 4 0 = 15" "ws example_seeded 3 5 0 = 15" "ws example_seeded 3 5 3 = 15"
  "ws example_seeded 4 4 0 = 15" "ws example_seeded 4 5 0 = 15" "ws example_seeded 4 5 3 = 15"
  "ws example_seeded 5 4 0 = 15" "ws example_seeded 5 5 0 = 15" "ws example_seeded 5 5 3 = 15"
  unfolding example_seeded_def
  by (simp_all add: seed_perimeter_def Let_def example_diag6)

lemma example_perimeter_col6:
  "i \<in> {2, 3, 4, 5} \<Longrightarrow> j \<in> {0, 1, 2, 3} \<Longrightarrow> ws example_perimeter i 5 j = 15"
  unfolding example_perimeter_def upt_small
  by (auto simp: sl_ws example_seeded_cells example_col4)

lemma example_perimeter_mid:
  "mid_value 2 5 example_perimeter = 15" "mid_value 3 5 example_perimeter = 15"
  "mid_value 4 5 example_perimeter = 15" "mid_value 5 5 example_perimeter = 15"
  by (simp_all add: mid_value_def Let_def example_perimeter_col6)

subsection \<open>Loops over all tables\<close>

lemma same_but_column_refl [simp]: "same_but_column c s s"
  by (simp add: same_but_column_def)

lemma same_but_column_step:
  "same_but_column c s t \<Longrightarrow> same_but i c t u \<Longrightarrow> same_but_column c s u"
  by (simp add: same_but_column_def same_but_def)

lemma tables_loop_inv:
  assumes g: "\<And>i j t. same_but_column c s t \<Longrightarrow> g i j t = g i j s"
    and t: "same_but_column c s t"
  shows "same_but_column c s
           (fold (\<lambda>i t0. fold (\<lambda>j t. store i c j (g i j t) t) [0..<num_dat t0 i + 1] t0) is t)
         \<and> ws (fold (\<lambda>i t0. fold (\<lambda>j t. store i c j (g i j t) t) [0..<num_dat t0 i + 1] t0) is t)
              i' c' j' =
           (if c' = c \<and> i' \<in> set is \<and> j' \<le> num_dat s i' then g i' j' s else ws t i' c' j')"
  using t
proof (induction "is" arbitrary: t)
  case Nil
  then show ?case by simp
next
  case (Cons i "is")
  let ?F = "\<lambda>i t0. fold (\<lambda>j t. store i c j (g i j t) t) [0..<num_dat t0 i + 1] t0"
  define inner where "inner = ?F i t"
  have n: "num_dat t = num_dat s"
    using Cons.prems by (simp add: same_but_column_def)
  have b: "same_but i c t inner"
    unfolding inner_def by (rule fold_store_same_but) simp
  have sc: "same_but_column c s inner"
    using Cons.prems b by (rule same_but_column_step)
  have gi: "\<And>j u. same_but i c t u \<Longrightarrow> g i j u = g i j t"
    using g Cons.prems same_but_column_step by metis
  have "ws inner i' c' j' =
      (if i' = i \<and> c' = c \<and> j' \<in> set [0..<num_dat t i + 1] then g i j' t else ws t i' c' j')"
    unfolding inner_def by (rule fold_store_ws) (rule gi)
  moreover have "g i j' t = g i j' s"
    using g Cons.prems by blast
  ultimately have w: "ws inner i' c' j' =
      (if i' = i \<and> c' = c \<and> j' \<le> num_dat s i then g i j' s else ws t i' c' j')"
    by (auto simp: n)
  have step: "fold ?F (i # is) t = fold ?F is inner"
    by (simp add: inner_def)
  from Cons.IH [OF sc] have A: "same_but_column c s (fold ?F is inner)"
    and B: "ws (fold ?F is inner) i' c' j' =
           (if c' = c \<and> i' \<in> set is \<and> j' \<le> num_dat s i' then g i' j' s else ws inner i' c' j')"
    by blast+
  show ?case
    unfolding step using A B w by auto
qed

lemma tables_loop_ws:
  assumes "\<And>i j t. same_but_column c s t \<Longrightarrow> g i j t = g i j s"
  shows "ws (fold (\<lambda>i t0. fold (\<lambda>j t. store i c j (g i j t) t) [0..<num_dat t0 i + 1] t0) is s)
              i' c' j' =
           (if c' = c \<and> i' \<in> set is \<and> j' \<le> num_dat s i' then g i' j' s else ws s i' c' j')"
  using tables_loop_inv [of c s g s "is" i' c' j', OF assms] by simp

lemma tables_loop_same:
  assumes "\<And>i j t. same_but_column c s t \<Longrightarrow> g i j t = g i j s"
  shows "same_but_column c s
     (fold (\<lambda>i t0. fold (\<lambda>j t. store i c j (g i j t) t) [0..<num_dat t0 i + 1] t0) is s)"
  using tables_loop_inv [of c s g s "is" 0 0 0, OF assms] by simp

subsection \<open>Columns 7 and 8\<close>

lemma column_7_facts:
  shows c7_ws: "ws (column_7 lowest s) i c j =
      (if c = 6 \<and> i < 8 \<and> j \<le> num_dat s i then column_6_or_6a s i j - lowest else ws s i c j)"
    and c7_num_dat: "num_dat (column_7 lowest s) = num_dat s"
    and c7_metric: "metric (column_7 lowest s) = metric s"
    and c7_foot_spacing: "foot_spacing (column_7 lowest s) = foot_spacing s"
proof -
  let ?g1 = "\<lambda>(i::nat) j t. ws t i 5 j - lowest"
  let ?g2 = "\<lambda>(i::nat) j t. ws t i 8 j - lowest"
  define s1 where "s1 = fold (\<lambda>i t0. fold (\<lambda>j t. store i 6 j (?g1 i j t) t)
                               [0..<num_dat t0 i + 1] t0) [0..<6] s"
  define s2 where "s2 = fold (\<lambda>i t0. fold (\<lambda>j t. store i 6 j (?g2 i j t) t)
                               [0..<num_dat t0 i + 1] t0) [6..<8] s1"
  have eq: "column_7 lowest s = s2"
    by (simp add: column_7_def Let_def s2_def s1_def)
  have g1: "\<And>i j t. same_but_column 6 s t \<Longrightarrow> ?g1 i j t = ?g1 i j s"
    by (simp add: same_but_column_def)
  have g2: "\<And>i j t. same_but_column 6 s1 t \<Longrightarrow> ?g2 i j t = ?g2 i j s1"
    by (simp add: same_but_column_def)
  have b1: "same_but_column 6 s s1"
    unfolding s1_def by (rule tables_loop_same) (rule g1)
  have b2: "same_but_column 6 s1 s2"
    unfolding s2_def by (rule tables_loop_same) (rule g2)
  have w1: "ws s1 i c j =
      (if c = 6 \<and> i \<in> set [0..<6] \<and> j \<le> num_dat s i then ?g1 i j s else ws s i c j)" for i c j
    unfolding s1_def by (rule tables_loop_ws) (rule g1)
  have w2: "ws s2 i c j =
      (if c = 6 \<and> i \<in> set [6..<8] \<and> j \<le> num_dat s1 i then ?g2 i j s1 else ws s1 i c j)" for i c j
    unfolding s2_def by (rule tables_loop_ws) (rule g2)
  have n1: "num_dat s1 = num_dat s"
    using b1 by (simp add: same_but_column_def)
  have i8: "i < 8 \<longleftrightarrow> i < 6 \<or> i = 6 \<or> i = 7" by auto
  show "ws (column_7 lowest s) i c j =
      (if c = 6 \<and> i < 8 \<and> j \<le> num_dat s i then column_6_or_6a s i j - lowest else ws s i c j)"
    unfolding eq w2 w1 n1 column_6_or_6a_def using i8 by auto
  show "num_dat (column_7 lowest s) = num_dat s" "metric (column_7 lowest s) = metric s"
    "foot_spacing (column_7 lowest s) = foot_spacing s"
    unfolding eq using b1 b2 by (simp_all add: same_but_column_def)
qed

lemma column_8_facts:
  shows c8_ws: "ws (column_8 s) i c j =
      (if c = 7 \<and> i < 8 \<and> j \<le> num_dat s i then ws s i 6 j * arcsec * foot_spacing s
       else ws s i c j)"
    and c8_num_dat: "num_dat (column_8 s) = num_dat s"
    and c8_metric: "metric (column_8 s) = metric s"
    and c8_foot_spacing: "foot_spacing (column_8 s) = foot_spacing s"
proof -
  let ?g = "\<lambda>(i::nat) j t. ws t i 6 j * arcsec * foot_spacing t"
  have g: "\<And>i j t. same_but_column 7 s t \<Longrightarrow> ?g i j t = ?g i j s"
    by (simp add: same_but_column_def)
  have b: "same_but_column 7 s (column_8 s)"
    unfolding column_8_def by (rule tables_loop_same) (rule g)
  have "ws (column_8 s) i c j =
      (if c = 7 \<and> i \<in> set [0..<8] \<and> j \<le> num_dat s i then ?g i j s else ws s i c j)"
    unfolding column_8_def by (rule tables_loop_ws) (rule g)
  then show "ws (column_8 s) i c j =
      (if c = 7 \<and> i < 8 \<and> j \<le> num_dat s i then ws s i 6 j * arcsec * foot_spacing s
       else ws s i c j)"
    by simp
  show "num_dat (column_8 s) = num_dat s" "metric (column_8 s) = metric s"
    "foot_spacing (column_8 s) = foot_spacing s"
    using b by (simp_all add: same_but_column_def)
qed

lemma convert_foot_spacing_facts [simp]:
  "ws (convert_foot_spacing s) = ws s"
  "num_dat (convert_foot_spacing s) = num_dat s"
  "metric (convert_foot_spacing s) = metric s"
  "foot_spacing (convert_foot_spacing s) = foot_spacing s * (if metric s \<noteq> 0 then 1000 else 100000)"
  by (simp_all add: convert_foot_spacing_def)

subsection \<open>The lowest point\<close>

lemma low_high_step_fst:
  "fst (low_high_step s i j acc) = min (column_6_or_6a s i j) (fst acc)"
  by (cases acc) (auto simp: low_high_step_def Let_def min_def)

lemma Min_insert_min:
  assumes "finite S"
  shows "Min (insert (min a b) S) = Min (insert b (insert a S))"
proof (cases "S = {}")
  case True
  then show ?thesis by (simp add: min.commute)
next
  case False
  with assms show ?thesis by (simp add: min.assoc min.commute min.left_commute)
qed

lemma low_inner:
  "fst (fold (low_high_step s i) js acc) = Min (insert (fst acc) (column_6_or_6a s i ` set js))"
proof (induction js arbitrary: acc)
  case Nil
  then show ?case by simp
next
  case (Cons j js)
  have "fst (fold (low_high_step s i) (j # js) acc)
          = Min (insert (min (column_6_or_6a s i j) (fst acc)) (column_6_or_6a s i ` set js))"
    by (simp add: Cons.IH low_high_step_fst)
  also have "\<dots> = Min (insert (fst acc) (insert (column_6_or_6a s i j) (column_6_or_6a s i ` set js)))"
    by (rule Min_insert_min) simp
  finally show ?case by simp
qed

lemma Min_insert_Min:
  assumes "finite A" and "finite B"
  shows "Min (insert (Min (insert x B)) A) = Min (insert x (B \<union> A))"
proof (cases "A = {}")
  case True
  then show ?thesis by simp
next
  case False
  have "Min (insert x B \<union> A) = min (Min (insert x B)) (Min A)"
    using assms False by (intro Min_Un) simp_all
  also have "\<dots> = Min (insert (Min (insert x B)) A)"
    using assms False by simp
  finally show ?thesis by simp
qed

lemma low_outer:
  "fst (fold (\<lambda>i. fold (low_high_step s i) [0..<num_dat s i + 1]) is acc)
     = Min (insert (fst acc) {column_6_or_6a s i j | i j. i \<in> set is \<and> j \<le> num_dat s i})"
proof (induction "is" arbitrary: acc)
  case Nil
  then show ?case by simp
next
  case (Cons i "is")
  define A where "A = {column_6_or_6a s i' j | i' j. i' \<in> set is \<and> j \<le> num_dat s i'}"
  define B where "B = column_6_or_6a s i ` {j. j \<le> num_dat s i}"
  have setB: "set [0..<num_dat s i + 1] = {j. j \<le> num_dat s i}" by auto
  have "A = (\<Union>i' \<in> set is. column_6_or_6a s i' ` {j. j \<le> num_dat s i'})"
    unfolding A_def by auto
  then have finA: "finite A" by simp
  have finB: "finite B" by (simp add: B_def)
  have AB: "{column_6_or_6a s i' j | i' j. i' \<in> set (i # is) \<and> j \<le> num_dat s i'} = B \<union> A"
    unfolding A_def B_def by auto
  have "fst (fold (\<lambda>i. fold (low_high_step s i) [0..<num_dat s i + 1]) (i # is) acc)
          = Min (insert (fst (fold (low_high_step s i) [0..<num_dat s i + 1] acc)) A)"
    unfolding fold.simps o_apply A_def by (rule Cons.IH)
  also have "fst (fold (low_high_step s i) [0..<num_dat s i + 1] acc) = Min (insert (fst acc) B)"
    unfolding B_def setB [symmetric] by (rule low_inner)
  also have "Min (insert (Min (insert (fst acc) B)) A) = Min (insert (fst acc) (B \<union> A))"
    using finA finB by (rule Min_insert_Min)
  finally show ?case unfolding AB .
qed

lemma return_low_is_Min:
  "fst (return_low_and_high_point s)
     = Min {column_6_or_6a s i j | i j. i < 8 \<and> j \<le> num_dat s i}"
proof -
  have "ws s 0 5 0 \<in> {column_6_or_6a s i j | i j. i < 8 \<and> j \<le> num_dat s i}"
    by (force simp: column_6_or_6a_def)
  then have "insert (ws s 0 5 0) {column_6_or_6a s i j | i j. i < 8 \<and> j \<le> num_dat s i}
      = {column_6_or_6a s i j | i j. i < 8 \<and> j \<le> num_dat s i}"
    by (rule insert_absorb)
  then show ?thesis
    using low_outer [of s "[0..<8]" "(ws s 0 5 0, ws s 0 5 0)"]
    by (simp add: return_low_and_high_point_def)
qed

lemma main_columns_7_8_facts:
  fixes s
  defines "lowest \<equiv> fst (return_low_and_high_point s)"
  shows m78_ws: "ws (main_columns_7_8 s) i c j =
      (if c = 6 \<and> i < 8 \<and> j \<le> num_dat s i then column_6_or_6a s i j - lowest
       else if c = 7 \<and> i < 8 \<and> j \<le> num_dat s i
         then (column_6_or_6a s i j - lowest) * arcsec
                * (foot_spacing s * (if metric s \<noteq> 0 then 1000 else 100000))
       else ws s i c j)"
    and m78_num_dat: "num_dat (main_columns_7_8 s) = num_dat s"
    and m78_metric: "metric (main_columns_7_8 s) = metric s"
    and m78_foot_spacing: "foot_spacing (main_columns_7_8 s)
          = foot_spacing s * (if metric s \<noteq> 0 then 1000 else 100000)"
proof -
  have eq: "main_columns_7_8 s = column_8 (convert_foot_spacing (column_7 lowest s))"
    by (simp add: main_columns_7_8_def lowest_def split: prod.split)
  show "ws (main_columns_7_8 s) i c j =
      (if c = 6 \<and> i < 8 \<and> j \<le> num_dat s i then column_6_or_6a s i j - lowest
       else if c = 7 \<and> i < 8 \<and> j \<le> num_dat s i
         then (column_6_or_6a s i j - lowest) * arcsec
                * (foot_spacing s * (if metric s \<noteq> 0 then 1000 else 100000))
       else ws s i c j)"
    unfolding eq by (simp add: c8_ws c7_ws c7_num_dat c7_metric c7_foot_spacing)
  show "num_dat (main_columns_7_8 s) = num_dat s"
    "metric (main_columns_7_8 s) = metric s"
    "foot_spacing (main_columns_7_8 s)
          = foot_spacing s * (if metric s \<noteq> 0 then 1000 else 100000)"
    unfolding eq
    by (simp_all add: c8_num_dat c8_metric c8_foot_spacing c7_num_dat c7_metric c7_foot_spacing)
qed

lemma m78_mid:
  "c \<noteq> 6 \<Longrightarrow> c \<noteq> 7 \<Longrightarrow> mid_value i c (main_columns_7_8 s) = mid_value i c s"
  by (rule mid_value_cong) (simp_all add: m78_ws m78_num_dat)

subsection \<open>The consistency check\<close>

lemma do_moody_consistency_checks_eq:
  fixes s
  defines "e6 \<equiv> mid_value 6 5 s * arcsec * foot_spacing s"
    and "e7 \<equiv> mid_value 7 5 s * arcsec * foot_spacing s"
  shows "do_moody_consistency_checks s =
     (if metric s \<noteq> 0
      then [Computed_height_microns ''E_W.txt'' e6, Computed_height_microns ''N_S.txt'' e7,
            if \<bar>e6\<bar> > 2.54 \<or> \<bar>e7\<bar> > 2.54 then Warning_errors_too_large else Errors_acceptable]
      else [Computed_height_micro_inches ''E_W.txt'' (10 * e6),
            Computed_height_micro_inches ''N_S.txt'' (10 * e7),
            if \<bar>e6\<bar> > 10.0 \<or> \<bar>e7\<bar> > 10.0 then Warning_errors_too_large else Errors_acceptable])"
  by (simp add: do_moody_consistency_checks_def moody_check_step_def Let_def upt_small
      filenames_def e6_def e7_def)

subsection \<open>What shift_lines and the seeds leave alone\<close>

lemma sl_other_table: "i' \<noteq> i \<Longrightarrow> ws (shift_lines i s) i' c j = ws s i' c j"
  by (simp add: sl_ws)

lemma sl_col6_ends:
  "ws (shift_lines i s) i 5 0 = ws s i 5 0"
  "ws (shift_lines i s) i 5 (num_dat s i) = ws s i 5 (num_dat s i)"
  by (simp_all add: sl_ws)

lemma mid_value_store_other [simp]:
  "i' \<noteq> i \<Longrightarrow> mid_value i' c' (store i c j v s) = mid_value i' c' s"
  by (simp add: mid_value_def Let_def)

lemma mid_value_sl_other:
  "i' \<noteq> i \<Longrightarrow> mid_value i' c' (shift_lines i s) = mid_value i' c' s"
  by (simp add: mid_value_def Let_def sl_other_table)

lemma main_columns_1_6_seeds:
  fixes s
  defines "s' \<equiv> main_columns_1_6 s"
  assumes N: "0 < num_dat s 2" "0 < num_dat s 3" "0 < num_dat s 4" "0 < num_dat s 5"
    "0 < num_dat s 6" "0 < num_dat s 7"
  shows "ws s' 2 5 0 = ws s' 1 5 0" "ws s' 3 5 0 = ws s' 1 5 0"
    "ws s' 4 5 (num_dat s 4) = ws s' 1 5 (num_dat s 1)"
    "ws s' 5 5 (num_dat s 5) = ws s' 1 5 (num_dat s 1)"
    "ws s' 2 5 (num_dat s 2) = ws s' 0 5 0" "ws s' 5 5 0 = ws s' 0 5 0"
    "ws s' 3 5 (num_dat s 3) = ws s' 0 5 (num_dat s 0)" "ws s' 4 5 0 = ws s' 0 5 (num_dat s 0)"
    "ws s' 6 5 0 = mid_value 3 5 s'" "ws s' 6 5 (num_dat s 6) = mid_value 5 5 s'"
    "ws s' 7 5 0 = mid_value 2 5 s'" "ws s' 7 5 (num_dat s 7) = mid_value 4 5 s'"
proof -
  define s2 where "s2 = fold diagonal_correction [0..<2] (fold first_four_columns [0..<8] s)"
  define s3 where "s3 = seed_perimeter s2"
  define s4 where "s4 = shift_lines 5 (shift_lines 4 (shift_lines 3 (shift_lines 2 s3)))"
  define s5 where "s5 = seed_center s4"
  have s': "s' = shift_lines 7 (shift_lines 6 s5)"
    by (simp add: s'_def main_columns_1_6_def Let_def s5_def s4_def s3_def s2_def)
  have n2: "num_dat s2 = num_dat s" by (simp add: s2_def)
  have n3: "num_dat s3 = num_dat s" by (simp add: s3_def n2)
  have n4: "num_dat s4 = num_dat s" by (simp add: s4_def n3)
  have n5: "num_dat s5 = num_dat s" by (simp add: s5_def n4)
  have w3: "ws s3 2 5 0 = ws s2 1 5 0" "ws s3 3 5 0 = ws s2 1 5 0"
    "ws s3 4 5 (num_dat s 4) = ws s2 1 5 (num_dat s 1)"
    "ws s3 5 5 (num_dat s 5) = ws s2 1 5 (num_dat s 1)"
    "ws s3 2 5 (num_dat s 2) = ws s2 0 5 0" "ws s3 5 5 0 = ws s2 0 5 0"
    "ws s3 3 5 (num_dat s 3) = ws s2 0 5 (num_dat s 0)" "ws s3 4 5 0 = ws s2 0 5 (num_dat s 0)"
    "\<And>i j. i < 2 \<Longrightarrow> ws s3 i 5 j = ws s2 i 5 j"
    using N by (simp_all add: s3_def seed_perimeter_def Let_def n2)
  have w4_ends: "ws s4 i 5 0 = ws s3 i 5 0" "ws s4 i 5 (num_dat s i) = ws s3 i 5 (num_dat s i)" for i
  proof -
    have "ws (shift_lines k t) i 5 0 = ws t i 5 0" for k t
      by (cases "i = k") (simp_all add: sl_col6_ends sl_other_table)
    then show "ws s4 i 5 0 = ws s3 i 5 0" by (simp add: s4_def)
    have "ws (shift_lines k t) i 5 (num_dat t i) = ws t i 5 (num_dat t i)" for k t
      by (cases "i = k") (simp_all add: sl_col6_ends sl_other_table)
    from this [of 5 "shift_lines 4 (shift_lines 3 (shift_lines 2 s3))"]
      this [of 4 "shift_lines 3 (shift_lines 2 s3)"] this [of 3 "shift_lines 2 s3"] this [of 2 s3]
    show "ws s4 i 5 (num_dat s i) = ws s3 i 5 (num_dat s i)"
      by (simp add: s4_def n3)
  qed
  have w4_diag: "i < 2 \<Longrightarrow> ws s4 i 5 j = ws s3 i 5 j" for i j
    by (simp add: s4_def sl_other_table)
  have w5: "ws s5 6 5 0 = mid_value 3 5 s4" "ws s5 6 5 (num_dat s 6) = mid_value 5 5 s4"
    "ws s5 7 5 0 = mid_value 2 5 s4" "ws s5 7 5 (num_dat s 7) = mid_value 4 5 s4"
    "\<And>i c j. i < 6 \<Longrightarrow> ws s5 i c j = ws s4 i c j"
    using N by (simp_all add: s5_def seed_center_def Let_def n4)
  have w6: "i < 6 \<Longrightarrow> ws s' i c j = ws s5 i c j" for i c j
    by (simp add: s' sl_other_table)
  have w6_ends: "ws s' i 5 0 = ws s5 i 5 0" "ws s' i 5 (num_dat s i) = ws s5 i 5 (num_dat s i)" for i
  proof -
    have "ws (shift_lines k t) i 5 0 = ws t i 5 0" for k t
      by (cases "i = k") (simp_all add: sl_col6_ends sl_other_table)
    then show "ws s' i 5 0 = ws s5 i 5 0" by (simp add: s')
    have "ws (shift_lines k t) i 5 (num_dat t i) = ws t i 5 (num_dat t i)" for k t
      by (cases "i = k") (simp_all add: sl_col6_ends sl_other_table)
    from this [of 7 "shift_lines 6 s5"] this [of 6 s5]
    show "ws s' i 5 (num_dat s i) = ws s5 i 5 (num_dat s i)"
      by (simp add: s' n5)
  qed
  have n': "num_dat s' = num_dat s" by (simp add: s' n5)
  have m: "i < 6 \<Longrightarrow> mid_value i 5 s' = mid_value i 5 s4" for i
    by (rule mid_value_cong) (simp_all add: n' n4 w6 w5(5))
  have d: "i < 2 \<Longrightarrow> ws s' i 5 j = ws s2 i 5 j" for i j
    by (simp add: w6 w5(5) w4_diag w3(9))
  show "ws s' 2 5 0 = ws s' 1 5 0" "ws s' 3 5 0 = ws s' 1 5 0"
    "ws s' 4 5 (num_dat s 4) = ws s' 1 5 (num_dat s 1)"
    "ws s' 5 5 (num_dat s 5) = ws s' 1 5 (num_dat s 1)"
    "ws s' 2 5 (num_dat s 2) = ws s' 0 5 0" "ws s' 5 5 0 = ws s' 0 5 0"
    "ws s' 3 5 (num_dat s 3) = ws s' 0 5 (num_dat s 0)" "ws s' 4 5 0 = ws s' 0 5 (num_dat s 0)"
    by (simp_all add: d w6 w5(5) w4_ends w3)
  show "ws s' 6 5 0 = mid_value 3 5 s'" "ws s' 6 5 (num_dat s 6) = mid_value 5 5 s'"
    "ws s' 7 5 0 = mid_value 2 5 s'" "ws s' 7 5 (num_dat s 7) = mid_value 4 5 s'"
    by (simp_all add: m w6_ends w5)
qed

subsection \<open>The worked example to the end\<close>

lemma example_center_seeded_cells:
  "ws example_center_seeded 6 4 0 = 15" "ws example_center_seeded 6 5 0 = 15"
  "ws example_center_seeded 6 5 4 = 15" "ws example_center_seeded 7 4 0 = 15"
  "ws example_center_seeded 7 5 0 = 15" "ws example_center_seeded 7 5 3 = 15"
  unfolding example_center_seeded_def
  by (simp_all add: seed_center_def Let_def example_perimeter_mid)

lemma example_east_west:
  "ws (shift_lines 6 example_center_seeded) 6 4 1 = - 10"
  "ws (shift_lines 6 example_center_seeded) 6 4 2 = - 35"
  "ws (shift_lines 6 example_center_seeded) 6 4 3 = - 60"
  "ws (shift_lines 6 example_center_seeded) 6 4 4 = - 85"
  "ws (shift_lines 6 example_center_seeded) 6 5 0 = 15"
  "ws (shift_lines 6 example_center_seeded) 6 5 1 = - 10"
  "ws (shift_lines 6 example_center_seeded) 6 5 2 = 65"
  "ws (shift_lines 6 example_center_seeded) 6 5 3 = 40"
  "ws (shift_lines 6 example_center_seeded) 6 5 4 = 15"
  by (simp_all add: sl_ws example_center_seeded_cells example_col4)

lemma example_east_west_mid:
  "mid_value 6 5 (shift_lines 6 example_center_seeded) = 65"
  by (simp add: mid_value_def Let_def example_east_west)

lemma example_north_south:
  "j \<in> {0, 1, 2, 3} \<Longrightarrow> ws (shift_lines 7 (shift_lines 6 example_center_seeded)) 7 5 j = 15"
  by (auto simp: sl_ws example_center_seeded_cells example_col4)

lemma example_center_mid:
  "mid_value 6 5 example_center = 65" "mid_value 7 5 example_center = 15"
  "mid_value 6 8 example_center = 0" "mid_value 7 8 example_center = 0"
  unfolding example_center_def upt_small
  by (simp_all add: mid_value_sl_other example_east_west_mid shift_lines_mid_6a)
    (simp add: mid_value_def Let_def example_north_south)

lemma example_final_mid:
  "mid_value 6 5 example_final = 65" "mid_value 7 5 example_final = 15"
  "mid_value 6 8 example_final = 0" "mid_value 7 8 example_final = 0"
  by (simp_all add: example_final_def m78_mid example_center_mid)

lemma example_center_globals:
  "metric example_center = 1" "foot_spacing example_center = 66"
  by (simp_all add: example_first_four_def example_diagonals_def example_seeded_def
      example_perimeter_def example_center_seeded_def example_center_def)

lemma example_final_globals:
  "metric example_final = 1" "foot_spacing example_final = 66000"
  "num_dat example_final = num_dat example_sheets"
  by (simp_all add: example_final_def m78_metric m78_foot_spacing m78_num_dat
      example_center_globals)

lemma example_columns_1_6: "main_columns_1_6 example_sheets = example_center"
  by (simp only: main_columns_1_6_def Let_def example_center_def example_center_seeded_def
      example_perimeter_def example_seeded_def example_diagonals_def example_first_four_def)

lemma example_main:
  "main example_sscanf_config example_sscanf example_fopen
     = Inr (example_final, do_moody_consistency_checks example_final)"
  by (simp add: main_def example_read_config example_read_all example_columns_1_6
      example_final_def Let_def)

lemma example_moody_check:
  "do_moody_consistency_checks example_final =
     [Computed_height_microns ''E_W.txt'' (65 * arcsec * 66000),
      Computed_height_microns ''N_S.txt'' (15 * arcsec * 66000),
      Warning_errors_too_large]"
  by (simp add: do_moody_consistency_checks_eq example_final_mid example_final_globals)
    (simp add: arcsec_def)

lemma read_data_126:
  "read_data example_sscanf fopen_126 0 initial = Inl (Too_many_stations 126 ''NW_SE.txt'')"
proof -
  have "read_lines example_sscanf 0 (replicate 126 (line ''0'')) 0 0 initial
          = Inl (Too_many_stations (MAX_STATIONS - 2) (filenames ! 0))"
    by (rule read_lines_too_many) (simp_all add: MAX_STATIONS_def)
  then show ?thesis
    by (simp add: read_data_def fopen_126_def Let_def MAX_STATIONS_def filenames_def)
qed

section \<open>The claims\<close>

subsection \<open>Perimeter and center lines: the correction factor\<close>

text \<open>
  Claim C1.  For a perimeter or center line with \<open>N\<close> readings (\<open>N > 0\<close>), whose seeds
  col5[0] and col6[N] are in place, \<open>shift_lines\<close> sets col5[N] = col6[N] - col4[N], takes
  the correction factor c = (col5[0] - col5[N]) / N, and for every station j from N-1 down
  to 1 sets col5[j] = col5[j+1] + c and col6[j] = col5[j] + col4[j].  It leaves col5[0]
  and column 4 as they were.  (Column 4 has index 3, column 5 index 4, column 6 index 5.)
\<close>

theorem shift_lines_correction_factor:
  fixes i :: nat and s :: state
  defines "N \<equiv> num_dat s i"
  defines "s' \<equiv> shift_lines i s"
  defines "c \<equiv> (ws s i 4 0 - ws s' i 4 N) / real N"
  assumes N: "0 < N"
  shows "ws s' i 4 N = ws s i 5 N - ws s i 3 N \<and>
         ws s' i 4 0 = ws s i 4 0 \<and>
         (\<forall>j. ws s' i 3 j = ws s i 3 j) \<and>
         (\<forall>j. 1 \<le> j \<and> j < N \<longrightarrow>
            ws s' i 4 j = ws s' i 4 (j + 1) + c \<and> ws s' i 5 j = ws s' i 4 j + ws s' i 3 j)"
proof -
  define e where "e = ws s i 5 N - ws s i 3 N"
  define c0 where "c0 = ((if N = 0 then e else ws s i 4 0) - e) / real N"
  have w: "ws s' i c' j' =
       (if c' = 4 \<and> j' = N then e
        else if 1 \<le> j' \<and> j' < N \<and> c' = 4 then e + real (N - j') * c0
        else if 1 \<le> j' \<and> j' < N \<and> c' = 5 then e + real (N - j') * c0 + ws s i 3 j'
        else ws s i c' j')" if "c' \<noteq> 8" for c' j'
    using sl_ws [of c' i i s j'] that by (simp add: s'_def N_def e_def c0_def)
  have 1: "ws s' i 4 N = e" by (simp add: w)
  have 2: "ws s' i 4 0 = ws s i 4 0" using N by (simp add: w)
  have 3: "ws s' i 3 j = ws s i 3 j" for j by (simp add: w)
  have c: "c = c0" using N by (simp add: c_def c0_def 1)
  have 4: "ws s' i 4 j = ws s' i 4 (j + 1) + c \<and> ws s' i 5 j = ws s' i 4 j + ws s' i 3 j"
    if "1 \<le> j \<and> j < N" for j
  proof (cases "j + 1 = N")
    case True
    with that show ?thesis by (simp add: w c)
  next
    case False
    with that have "real (N - j) = real (N - (j + 1)) + 1" by (simp add: of_nat_diff)
    with that False show ?thesis by (simp add: w c algebra_simps)
  qed
  from 1 2 3 4 show ?thesis by (simp add: e_def)
qed

text \<open>
  The east-west center line of the example, seeded with 15 at both ends over the running
  sums 0, 0, 100, 100, 100: col5[4] = -85, the factor is 25, and station 3 gets
  col5 = -60 and col6 = 40.
\<close>

theorem shift_lines_correction_factor_witness:
  "0 < num_dat example_center_seeded 6 \<and>
   ws (shift_lines 6 example_center_seeded) 6 4 4 = - 85 \<and>
   (ws example_center_seeded 6 4 0 - ws (shift_lines 6 example_center_seeded) 6 4 4) / 4 = 25 \<and>
   ws (shift_lines 6 example_center_seeded) 6 4 3
     = ws (shift_lines 6 example_center_seeded) 6 4 4 + 25 \<and>
   ws (shift_lines 6 example_center_seeded) 6 5 3 = 40"
proof -
  let ?s' = "shift_lines 6 example_center_seeded"
  have N: "0 < num_dat example_center_seeded 6" by simp
  note t = shift_lines_correction_factor [OF N]
  have n: "num_dat example_center_seeded 6 = 4" by simp
  from t have v: "ws ?s' 6 4 4 = - 85"
    unfolding n by (simp add: example_center_seeded_cells example_col4)
  have c: "(ws example_center_seeded 6 4 0 - ws ?s' 6 4 4) / 4 = 25"
    unfolding v by (simp add: example_center_seeded_cells)
  from t have "1 \<le> (3::nat) \<and> 3 < (4::nat) \<longrightarrow>
      ws ?s' 6 4 3 = ws ?s' 6 4 (3 + 1) + (ws example_center_seeded 6 4 0 - ws ?s' 6 4 4) / real (4::nat)
      \<and> ws ?s' 6 5 3 = ws ?s' 6 4 3 + ws ?s' 6 3 3"
    unfolding n by blast
  then have j: "ws ?s' 6 4 3 = ws ?s' 6 4 4 + 25" "ws ?s' 6 5 3 = ws ?s' 6 4 3 + ws ?s' 6 3 3"
    using c by simp_all
  have "ws ?s' 6 5 3 = 40"
    unfolding j v by (simp add: example_col4)
  with N v c j(1) show ?thesis by blast
qed

subsection \<open>Diagonal lines: the linear correction\<close>

text \<open>
  Claim C2.  For a diagonal line with \<open>N\<close> readings (\<open>N > 0\<close>), \<open>diagonal_correction\<close> sets,
  for every station j in 0..N, col5[j] = a * j + b and col6[j] = col4[j] + col5[j], where
  a = - col4[N] / N and b = 0.5 * col4[N] - middle(col4), the middle value being that of
  \<open>mid_value\<close>.
\<close>

theorem diagonal_correction_columns:
  fixes sh :: nat and s :: state
  defines "N \<equiv> num_dat s sh"
  defines "a \<equiv> - ws s sh 3 N / real N"
  defines "b \<equiv> 0.5 * ws s sh 3 N - mid_value sh 3 s"
  defines "s' \<equiv> diagonal_correction sh s"
  assumes "0 < N"
  shows "\<forall>j. j \<le> N \<longrightarrow>
           ws s' sh 4 j = a * real j + b \<and> ws s' sh 5 j = ws s sh 3 j + ws s' sh 4 j"
  by (simp add: s'_def dc_ws a_def b_def N_def)

text \<open>
  The first diagonal of the example: running sums 0, 0, 10, 40, so a = -40/3 and b = 15;
  the last station gets col5 = -25 and col6 = 15.
\<close>

theorem diagonal_correction_columns_witness:
  "0 < num_dat example_first_four 0 \<and> 3 \<le> num_dat example_first_four 0 \<and>
   ws (diagonal_correction 0 example_first_four) 0 4 3 = - 25 \<and>
   ws (diagonal_correction 0 example_first_four) 0 5 3 = 15"
proof -
  have N: "0 < num_dat example_first_four 0" by simp
  from diagonal_correction_columns [OF N]
  have "3 \<le> num_dat example_first_four 0 \<longrightarrow>
     ws (diagonal_correction 0 example_first_four) 0 4 3
       = - ws example_first_four 0 3 (num_dat example_first_four 0)
           / real (num_dat example_first_four 0) * real (3::nat)
         + (0.5 * ws example_first_four 0 3 (num_dat example_first_four 0)
            - mid_value 0 3 example_first_four)
     \<and> ws (diagonal_correction 0 example_first_four) 0 5 3
       = ws example_first_four 0 3 3 + ws (diagonal_correction 0 example_first_four) 0 4 3"
    by blast
  then show ?thesis
    by (simp add: example_col4 example_mid_col4)
qed

text \<open>
  After the first four columns and the diagonal correction of a line with \<open>N > 0\<close>
  readings, both end stations of column 6 hold b = 0.5 * col4[N] - middle(col4), and the
  middle value of column 6 is 0.
\<close>

lemma diagonal_after_first_four:
  fixes sh :: nat and s :: state
  defines "s' \<equiv> diagonal_correction sh (first_four_columns sh s)"
  defines "N \<equiv> num_dat s sh"
  assumes "0 < N"
  shows "ws s' sh 5 0 = 0.5 * ws s' sh 3 N - mid_value sh 3 s'"
    and "ws s' sh 5 N = 0.5 * ws s' sh 3 N - mid_value sh 3 s'"
    and "mid_value sh 5 s' = 0"
proof -
  define s1 where "s1 = first_four_columns sh s"
  have s': "s' = diagonal_correction sh s1" by (simp add: s'_def s1_def)
  have n: "num_dat s1 sh = N" by (simp add: s1_def N_def ffc_num_dat)
  have m: "mid_value sh 3 s' = mid_value sh 3 s1"
    by (rule mid_value_cong) (simp_all add: s' dc_ws dc_num_dat)
  have z: "ws s1 sh 3 0 = 0" by (simp add: s1_def ffc_col4_0)
  have w: "ws s' sh 3 N = ws s1 sh 3 N" by (simp add: s' dc_ws)
  from diagonal_correction_ends [where s = s1 and sh = sh] n z assms(3)
  show "ws s' sh 5 0 = 0.5 * ws s' sh 3 N - mid_value sh 3 s'"
    and "ws s' sh 5 N = 0.5 * ws s' sh 3 N - mid_value sh 3 s'"
    unfolding m w by (simp_all add: s')
  from diagonal_correction_mid [where s = s1 and sh = sh] n assms(3)
  show "mid_value sh 5 s' = 0" by (simp add: s')
qed

text \<open>
  Claim C10.  For a diagonal line with \<open>N > 0\<close> readings and any raw readings, after the
  first four columns and the diagonal correction both end stations have the same column 6:
  col6[0] = col6[N] = 0.5 * col4[N] - middle(col4), in exact arithmetic.
\<close>

theorem diagonal_ends_equal:
  fixes sh :: nat and s :: state
  defines "s' \<equiv> diagonal_correction sh (first_four_columns sh s)"
  defines "N \<equiv> num_dat s sh"
  assumes "0 < N"
  shows "ws s' sh 5 0 = 0.5 * ws s' sh 3 N - mid_value sh 3 s' \<and>
         ws s' sh 5 N = 0.5 * ws s' sh 3 N - mid_value sh 3 s' \<and>
         ws s' sh 5 0 = ws s' sh 5 N"
  using diagonal_after_first_four [where s = s and sh = sh] assms(3) by (simp add: s'_def N_def)

text \<open>The first diagonal of the example, read as 5, 15, 35: both ends get 15.\<close>

theorem diagonal_ends_equal_witness:
  "0 < num_dat example_sheets 0 \<and>
   ws (diagonal_correction 0 (first_four_columns 0 example_sheets)) 0 5 0 = 15 \<and>
   ws (diagonal_correction 0 (first_four_columns 0 example_sheets)) 0 5 3 = 15"
proof -
  have N: "0 < num_dat example_sheets 0" by simp
  have "ws (first_four_columns 0 example_sheets) 0 3 1 = 0"
    "ws (first_four_columns 0 example_sheets) 0 3 2 = 10"
    "ws (first_four_columns 0 example_sheets) 0 3 3 = 40"
    by (simp_all add: ffc_col3 ffc_col4_Suc0 ffc_col4_rec)
  with diagonal_ends_equal [OF N] show ?thesis
    by (simp add: mid_value_def Let_def)
qed

text \<open>
  Claim C8, as amended.  For a diagonal line with \<open>N > 0\<close> readings, after the diagonal
  correction the middle value of column 6 is 0, and the two end stations lie on the same
  side of it at the same distance b = 0.5 * col4[N] - middle(col4); their mean is
  middle(col6) + b, which is middle(col6) only when b = 0.
\<close>

theorem diagonal_ends_about_middle:
  fixes sh :: nat and s :: state
  defines "s' \<equiv> diagonal_correction sh (first_four_columns sh s)"
  defines "N \<equiv> num_dat s sh"
  defines "b \<equiv> 0.5 * ws s' sh 3 N - mid_value sh 3 s'"
  assumes "0 < N"
  shows "mid_value sh 5 s' = 0 \<and>
         ws s' sh 5 0 - mid_value sh 5 s' = b \<and>
         ws s' sh 5 N - mid_value sh 5 s' = b \<and>
         (ws s' sh 5 0 + ws s' sh 5 N) / 2 = mid_value sh 5 s' + b"
  using diagonal_after_first_four [where s = s and sh = sh] assms(4) by (simp add: s'_def N_def b_def)

theorem diagonal_ends_about_middle_witness:
  "0 < num_dat example_sheets 1 \<and>
   mid_value 1 5 (diagonal_correction 1 (first_four_columns 1 example_sheets)) = 0 \<and>
   (ws (diagonal_correction 1 (first_four_columns 1 example_sheets)) 1 5 0
     + ws (diagonal_correction 1 (first_four_columns 1 example_sheets)) 1 5 3) / 2 = 15"
proof -
  have N: "0 < num_dat example_sheets 1" by simp
  have "ws (first_four_columns 1 example_sheets) 1 3 1 = 0"
    "ws (first_four_columns 1 example_sheets) 1 3 2 = 10"
    "ws (first_four_columns 1 example_sheets) 1 3 3 = 40"
    by (simp_all add: ffc_col3 ffc_col4_Suc0 ffc_col4_rec)
  with diagonal_ends_about_middle [OF N] show ?thesis
    by (simp add: mid_value_def [of _ 3] Let_def)
qed

text \<open>
  The claim as the specification words it, (col6[0] + col6[N]) / 2 = middle(col6), fails
  on the first diagonal of the example after \<open>main\<close> has corrected the diagonals: the mean
  of the end stations is 15, the middle value is 0.
\<close>

theorem diagonal_symmetry_counterexample:
  "num_dat example_diagonals 0 = 3 \<and>
   (ws example_diagonals 0 5 0 + ws example_diagonals 0 5 3) / 2 = 15 \<and>
   mid_value 0 5 example_diagonals = 0"
  by (simp add: mid_value_def Let_def example_diag6)

subsection \<open>Center lines: the error shift\<close>

text \<open>
  Claim C7.  For each of the two center lines (tables 6 and 7), \<open>shift_lines\<close> computes
  col6a[j] = col6[j] - middle(col6) for every station j in 0..N, and then the middle value
  of column 6a is 0, in exact arithmetic.  (Column 6a has index 8.)
\<close>

theorem center_line_mid_6a_zero:
  fixes i :: nat and s :: state
  defines "s' \<equiv> shift_lines i s"
  assumes "i = 6 \<or> i = 7"
  shows "(\<forall>j. j \<le> num_dat s i \<longrightarrow> ws s' i 8 j = ws s' i 5 j - mid_value i 5 s') \<and>
         mid_value i 8 s' = 0"
  using assms(2) by (simp add: s'_def sl_6a shift_lines_mid_6a)

text \<open>The east-west center line of the example: middle(col6) = 65, col6a[1] = -10 - 65.\<close>

theorem center_line_mid_6a_zero_witness:
  "((6::nat) = 6 \<or> (6::nat) = 7) \<and> 1 \<le> num_dat example_center_seeded 6 \<and>
   ws (shift_lines 6 example_center_seeded) 6 8 1 = - 75 \<and>
   mid_value 6 8 (shift_lines 6 example_center_seeded) = 0"
proof -
  have i: "(6::nat) = 6 \<or> (6::nat) = 7" by simp
  from center_line_mid_6a_zero [OF i]
  have "1 \<le> num_dat example_center_seeded 6 \<longrightarrow>
      ws (shift_lines 6 example_center_seeded) 6 8 1
        = ws (shift_lines 6 example_center_seeded) 6 5 1
          - mid_value 6 5 (shift_lines 6 example_center_seeded)"
    and "mid_value 6 8 (shift_lines 6 example_center_seeded) = 0"
    by blast+
  then show ?thesis
    by (simp add: example_east_west [simplified] example_east_west_mid)
qed

subsection \<open>The first four columns\<close>

text \<open>
  Claim C5, as amended.  For every line whose file the reader accepted, the N readings
  stand at stations 1..N of column 2, in the order of the file, and station 0 of column 2
  is as it was before the file was read: the reader never writes it.  For every station j
  in 1..N, \<open>first_four_columns\<close> sets col3[j] = col2[j] - col2[1], the difference of
  reading j from the first reading of the line, and leaves column 2 as it was; col3[0] is
  not written.  (Column 2 has index 1, column 3 index 2.)
\<close>

theorem first_four_columns_angle_from_first_reading:
  fixes sscanf fopen i s0 s bufs
  defines "N \<equiv> num_dat s i"
  defines "s' \<equiv> first_four_columns i s"
  assumes "fopen (filenames ! i) = Some bufs" and "read_data sscanf fopen i s0 = Inr s"
  shows "N = length (data_lines bufs) \<and>
         (\<forall>j. 1 \<le> j \<and> j \<le> N \<longrightarrow>
            ws s i 1 j = snd (sscanf (skip_space (data_lines bufs ! (j - 1)))) \<and>
            ws s' i 1 j = ws s i 1 j \<and>
            ws s' i 2 j = ws s i 1 j - ws s i 1 1) \<and>
         ws s i 1 0 = ws s0 i 1 0 \<and> ws s' i 1 0 = ws s0 i 1 0 \<and>
         ws s' i 2 0 = ws s0 i 2 0"
proof -
  from read_data_Inr [OF assms(4)] assms(3)
  have p: "all_parse sscanf bufs" and n: "3 \<le> length (data_lines bufs)"
    "length (data_lines bufs) < MAX_STATIONS - 2"
    by auto
  from rd_accepts [where fopen = fopen and f = i and bufs = bufs and sscanf = sscanf and s = s0,
      OF assms(3) p n] assms(4)
  have nd: "num_dat s = (num_dat s0)(i := length (data_lines bufs))"
    and w: "\<And>i' c j. ws s i' c j =
              (if i' = i \<and> c = 1 \<and> 0 < j \<and> j \<le> length (data_lines bufs)
               then snd (sscanf (skip_space (data_lines bufs ! (j - 1))))
               else ws s0 i' c j)"
    by auto
  have N: "N = length (data_lines bufs)" by (simp add: N_def nd)
  have "ws s i 1 j = snd (sscanf (skip_space (data_lines bufs ! (j - 1)))) \<and>
        ws s' i 1 j = ws s i 1 j \<and> ws s' i 2 j = ws s i 1 j - ws s i 1 1"
    if "1 \<le> j \<and> j \<le> N" for j
    using that by (simp add: s'_def ffc_col3 ffc_same w N N_def [symmetric])
  moreover have "ws s i 1 0 = ws s0 i 1 0" "ws s' i 1 0 = ws s0 i 1 0" "ws s' i 2 0 = ws s0 i 2 0"
    by (simp_all add: s'_def ffc_col3 ffc_same w)
  ultimately show ?thesis using N by blast
qed

text \<open>The first diagonal of the example, read as 5, 15, 35 into the initial worksheets.\<close>

theorem first_four_columns_angle_from_first_reading_witness:
  "\<exists>s. example_fopen (filenames ! 0) = Some [line ''5'', line ''  15'', line ''35''] \<and>
       read_data example_sscanf example_fopen 0 example_config = Inr s \<and>
       num_dat s 0 = 3 \<and> ws s 0 1 0 = 0 \<and> ws s 0 1 1 = 5 \<and> ws s 0 1 2 = 15 \<and>
       ws (first_four_columns 0 s) 0 2 2 = 10"
proof -
  let ?bufs = "[line ''5'', line ''  15'', line ''35'']"
  have o: "example_fopen (filenames ! 0) = Some ?bufs"
    by (simp add: example_fopen_def filenames_def)
  have d: "data_lines ?bufs = ?bufs" by simp
  have "all_parse example_sscanf ?bufs" "3 \<le> length (data_lines ?bufs)"
    "length (data_lines ?bufs) < MAX_STATIONS - 2"
    by (simp_all add: MAX_STATIONS_def)
  from rd_accepts [where fopen = example_fopen and f = 0 and s = example_config, OF o this]
  obtain s where s: "read_data example_sscanf example_fopen 0 example_config = Inr s"
    by blast
  from first_four_columns_angle_from_first_reading [OF o s]
  have n: "num_dat s 0 = length (data_lines ?bufs)"
    and z: "ws s 0 1 0 = ws example_config 0 1 0"
    and j: "\<And>j. 1 \<le> j \<and> j \<le> num_dat s 0 \<Longrightarrow>
            ws s 0 1 j = snd (example_sscanf (skip_space (data_lines ?bufs ! (j - 1)))) \<and>
            ws (first_four_columns 0 s) 0 2 j = ws s 0 1 j - ws s 0 1 1"
    by blast+
  have n3: "num_dat s 0 = 3" using n by simp
  have z0: "ws s 0 1 0 = 0" using z by (simp add: example_config_def initial_def)
  from j [of 1] have c1: "ws s 0 1 1 = 5" unfolding d by (simp add: n3)
  from j [of 2] c1 have c2: "ws s 0 1 2 = 15" "ws (first_four_columns 0 s) 0 2 2 = 10"
    unfolding d by (simp_all add: n3)
  from o s n3 z0 c1 c2 show ?thesis by blast
qed

text \<open>
  The claim as the specification words it, col3[j] = col2[j] - col2[0], fails on the
  first diagonal of the example.  The file reads 5, 15, 35; the reader leaves them at
  stations 1, 2, 3 of column 2 and station 0 at its initial 0, so col3[2] is 15 - 5 = 10
  while col2[2] - col2[0] is 15.
\<close>

theorem first_four_columns_counterexample:
  "read_all example_sscanf example_fopen [0..<8] example_config = Inr example_sheets \<and>
   2 \<le> num_dat example_sheets 0 \<and>
   ws (first_four_columns 0 example_sheets) 0 2 2 = 10 \<and>
   ws (first_four_columns 0 example_sheets) 0 1 2
     - ws (first_four_columns 0 example_sheets) 0 1 0 = 15"
  by (simp add: example_read_all ffc_col3 ffc_same)

subsection \<open>Corner propagation\<close>

text \<open>
  Claim C6.  \<open>shift_lines\<close> leaves col6[0] and col6[N] of its line as they were.  So when
  every perimeter and center line has at least one reading, after \<open>main\<close> has solved
  all lines, each end of a perimeter line holds the diagonal's corner value that was copied
  into it, and each end of a center line the middle value of the perimeter line it was
  copied from.
\<close>

theorem shift_lines_keeps_seeded_ends:
  fixes s :: state
  defines "s' \<equiv> main_columns_1_6 s"
  assumes "0 < num_dat s 2" "0 < num_dat s 3" "0 < num_dat s 4" "0 < num_dat s 5"
    "0 < num_dat s 6" "0 < num_dat s 7"
  shows "(\<forall>k t. ws (shift_lines k t) k 5 0 = ws t k 5 0 \<and>
                ws (shift_lines k t) k 5 (num_dat t k) = ws t k 5 (num_dat t k)) \<and>
         ws s' 2 5 0 = ws s' 1 5 0 \<and> ws s' 3 5 0 = ws s' 1 5 0 \<and>
         ws s' 4 5 (num_dat s 4) = ws s' 1 5 (num_dat s 1) \<and>
         ws s' 5 5 (num_dat s 5) = ws s' 1 5 (num_dat s 1) \<and>
         ws s' 2 5 (num_dat s 2) = ws s' 0 5 0 \<and> ws s' 5 5 0 = ws s' 0 5 0 \<and>
         ws s' 3 5 (num_dat s 3) = ws s' 0 5 (num_dat s 0) \<and>
         ws s' 4 5 0 = ws s' 0 5 (num_dat s 0) \<and>
         ws s' 6 5 0 = mid_value 3 5 s' \<and> ws s' 6 5 (num_dat s 6) = mid_value 5 5 s' \<and>
         ws s' 7 5 0 = mid_value 2 5 s' \<and> ws s' 7 5 (num_dat s 7) = mid_value 4 5 s'"
  using main_columns_1_6_seeds [OF assms(2-7)] sl_col6_ends
  by (simp add: s'_def)

text \<open>In the example every corner and every midpoint is 15.\<close>

theorem shift_lines_keeps_seeded_ends_witness:
  "0 < num_dat example_sheets 2 \<and> 0 < num_dat example_sheets 3 \<and>
   0 < num_dat example_sheets 4 \<and> 0 < num_dat example_sheets 5 \<and>
   0 < num_dat example_sheets 6 \<and> 0 < num_dat example_sheets 7 \<and>
   ws example_center 2 5 0 = ws example_center 1 5 0 \<and>
   ws example_center 2 5 3 = ws example_center 0 5 0 \<and>
   ws example_center 6 5 0 = 15 \<and> ws example_center 6 5 4 = 15"
proof -
  have N: "0 < num_dat example_sheets 2" "0 < num_dat example_sheets 3"
    "0 < num_dat example_sheets 4" "0 < num_dat example_sheets 5"
    "0 < num_dat example_sheets 6" "0 < num_dat example_sheets 7"
    by simp_all
  have m: "mid_value 3 5 example_center = 15" "mid_value 5 5 example_center = 15"
    unfolding example_center_def upt_small example_center_seeded_def
    by (simp_all add: mid_value_sl_other seed_center_def Let_def example_perimeter_mid)
  from shift_lines_keeps_seeded_ends [OF N] m N show ?thesis
    by (simp add: example_columns_1_6)
qed

subsection \<open>Heights over the lowest point\<close>

text \<open>
  Claim C3.  After all eight lines are solved, \<open>main\<close> sets, for every line and every
  station j in 0..N, col7[j] to col6[j] (col6a[j] for the two center lines) minus the
  least of those cells over all stations of all eight lines, and col8[j] to col7[j] times
  the foot spacing times one arc second in radians, the foot spacing having been
  multiplied by 1000 in metric mode and by 100000 otherwise.  Columns 6 and 6a are left as
  they were.  (Column 7 has index 6, column 8 index 7.)
\<close>

theorem main_columns_7_8_heights:
  fixes s :: state
  defines "s' \<equiv> main_columns_7_8 s"
  defines "lowest \<equiv> Min {column_6_or_6a s i j | i j. i < 8 \<and> j \<le> num_dat s i}"
  shows "(\<forall>i j. i < 8 \<and> j \<le> num_dat s i \<longrightarrow>
            ws s' i 6 j = column_6_or_6a s i j - lowest \<and>
            ws s' i 7 j = ws s' i 6 j * foot_spacing s' * arcsec) \<and>
         foot_spacing s' = foot_spacing s * (if metric s \<noteq> 0 then 1000 else 100000) \<and>
         (\<forall>i j. column_6_or_6a s' i j = column_6_or_6a s i j)"
proof -
  have l: "fst (return_low_and_high_point s) = lowest"
    by (simp only: lowest_def return_low_is_Min)
  have "ws s' i 6 j = column_6_or_6a s i j - lowest \<and>
        ws s' i 7 j = ws s' i 6 j * foot_spacing s' * arcsec"
    if "i < 8 \<and> j \<le> num_dat s i" for i j
    using that by (simp add: s'_def m78_ws m78_foot_spacing l)
  moreover have "foot_spacing s' = foot_spacing s * (if metric s \<noteq> 0 then 1000 else 100000)"
    by (simp add: s'_def m78_foot_spacing)
  moreover have "column_6_or_6a s' i j = column_6_or_6a s i j" for i j
    by (simp add: column_6_or_6a_def s'_def m78_ws)
  ultimately show ?thesis by blast
qed

text \<open>
  Station 1 of the east-west center line of the example, in metric mode with a 66 mm foot
  spacing: the foot spacing becomes 66000 and column 8 is column 7 times 66000 arc seconds.
\<close>

theorem main_columns_7_8_heights_witness:
  "(6::nat) < 8 \<and> 1 \<le> num_dat example_center 6 \<and>
   foot_spacing example_final = 66000 \<and>
   ws example_final 6 7 1 = ws example_final 6 6 1 * 66000 * arcsec"
proof -
  from main_columns_7_8_heights [where s = example_center]
  have "(6::nat) < 8 \<and> 1 \<le> num_dat example_center 6 \<longrightarrow>
      ws (main_columns_7_8 example_center) 6 7 1
        = ws (main_columns_7_8 example_center) 6 6 1
          * foot_spacing (main_columns_7_8 example_center) * arcsec"
    by blast
  then show ?thesis
    by (simp add: example_final_def [symmetric] example_final_globals)
qed

subsection \<open>The measurement error check\<close>

text \<open>
  Claim C4, as amended.  For each of the two center lines \<open>do_moody_consistency_checks\<close>
  takes the error middle(col6) * arcsec * foot_spacing, with column 6 (not 6a) of the line
  and the foot spacing that \<open>main\<close> has already multiplied by 1000 (metric) or 100000
  (imperial).  It reports both errors and then prints the warning iff the absolute error
  of some center line exceeds 2.54 (microns) in metric mode, or 10 (in 1/100000 inch, that
  is 100 micro-inch) in imperial mode, and the acceptance otherwise.  The function always
  returns; it has no failure.
\<close>

theorem moody_check_after_main:
  fixes s :: state
  defines "s' \<equiv> main_columns_7_8 s"
  defines "scaled \<equiv> foot_spacing s * (if metric s \<noteq> 0 then 1000 else 100000)"
  defines "e6 \<equiv> mid_value 6 5 s * arcsec * scaled"
  defines "e7 \<equiv> mid_value 7 5 s * arcsec * scaled"
  shows "foot_spacing s' = scaled \<and>
     do_moody_consistency_checks s' =
     (if metric s \<noteq> 0
      then [Computed_height_microns ''E_W.txt'' e6, Computed_height_microns ''N_S.txt'' e7,
            if \<bar>e6\<bar> > 2.54 \<or> \<bar>e7\<bar> > 2.54
            then Warning_errors_too_large else Errors_acceptable]
      else [Computed_height_micro_inches ''E_W.txt'' (10 * e6),
            Computed_height_micro_inches ''N_S.txt'' (10 * e7),
            if \<bar>e6\<bar> > 10 \<or> \<bar>e7\<bar> > 10
            then Warning_errors_too_large else Errors_acceptable])"
  by (simp add: do_moody_consistency_checks_eq s'_def m78_mid m78_metric m78_foot_spacing
      e6_def e7_def scaled_def)

text \<open>
  The claim as the specification words it takes the error from column 6a.  On the example
  \<open>main\<close> prints the warning, the errors from column 6 being 65 and 15 arc seconds over
  66000 microns, while the middle values of column 6a are both 0 and the claim's error
  exceeds nothing.
\<close>

theorem moody_check_counterexample:
  "main example_sscanf_config example_sscanf example_fopen
     = Inr (example_final, do_moody_consistency_checks example_final) \<and>
   last (do_moody_consistency_checks example_final) = Warning_errors_too_large \<and>
   metric example_final = 1 \<and>
   \<bar>mid_value 6 8 example_final * arcsec * foot_spacing example_final\<bar> = 0 \<and>
   \<bar>mid_value 7 8 example_final * arcsec * foot_spacing example_final\<bar> = 0"
  by (simp add: example_main example_moody_check example_final_mid example_final_globals)

subsection \<open>The capacity of the reader\<close>

text \<open>
  Claim C9, as amended.  For each of the 8 lines, \<open>read_data\<close> accepts a data file that
  can be opened exactly when every data line (a line that is neither blank nor a comment)
  parses and there are at least 3 and at most MAX_STATIONS - 3 = 125 of them, and then
  stores their number.  When all data lines parse it fails naming the file both with fewer
  than 3 readings and with MAX_STATIONS - 2 = 126 readings or more.
\<close>

theorem read_data_accepts_3_to_125:
  fixes sscanf fopen f bufs s
  defines "n \<equiv> length (data_lines bufs)"
  defines "fname \<equiv> filenames ! f"
  assumes "fopen fname = Some bufs"
  shows "MAX_STATIONS - 2 = 126 \<and>
         ((\<exists>s'. read_data sscanf fopen f s = Inr s')
            \<longleftrightarrow> all_parse sscanf bufs \<and> 3 \<le> n \<and> n \<le> 125) \<and>
         (\<forall>s'. read_data sscanf fopen f s = Inr s' \<longrightarrow> num_dat s' f = n) \<and>
         (all_parse sscanf bufs \<and> n < 3 \<longrightarrow>
            read_data sscanf fopen f s = Inl (Too_few_lines n fname)) \<and>
         (all_parse sscanf bufs \<and> 126 \<le> n \<longrightarrow>
            read_data sscanf fopen f s = Inl (Too_many_stations 126 fname))"
proof -
  note o = assms(3) [unfolded fname_def]
  note acc = rd_accepts [where fopen = fopen and f = f and bufs = bufs and sscanf = sscanf
      and s = s, OF o]
  note few = rd_too_few [where fopen = fopen and f = f and bufs = bufs and sscanf = sscanf
      and s = s, OF o]
  note many = rd_too_many [where fopen = fopen and f = f and bufs = bufs and sscanf = sscanf
      and s = s, OF o]
  have ok: "all_parse sscanf bufs \<and> 3 \<le> n \<and> n \<le> 125"
    if "read_data sscanf fopen f s = Inr s'" for s'
    using read_data_Inr [OF that] o by (auto simp: n_def MAX_STATIONS_def)
  have ex: "\<exists>s'. read_data sscanf fopen f s = Inr s' \<and> num_dat s' f = n"
    if "all_parse sscanf bufs \<and> 3 \<le> n \<and> n \<le> 125"
    using acc that by (auto simp: n_def MAX_STATIONS_def)
  have "num_dat s' f = n" if "read_data sscanf fopen f s = Inr s'" for s'
    using ex [OF ok [OF that]] that by auto
  moreover have "read_data sscanf fopen f s = Inl (Too_few_lines n fname)"
    if "all_parse sscanf bufs \<and> n < 3"
    using few that by (simp add: n_def fname_def)
  moreover have "read_data sscanf fopen f s = Inl (Too_many_stations 126 fname)"
    if "all_parse sscanf bufs \<and> 126 \<le> n"
    using many that by (simp add: n_def fname_def MAX_STATIONS_def)
  moreover have "(\<exists>s'. read_data sscanf fopen f s = Inr s')
            \<longleftrightarrow> all_parse sscanf bufs \<and> 3 \<le> n \<and> n \<le> 125"
    using ok ex by blast
  moreover have "MAX_STATIONS - 2 = 126"
    by (simp add: MAX_STATIONS_def)
  ultimately show ?thesis by blast
qed

text \<open>A file of 125 readings of 0 is accepted.\<close>

theorem read_data_accepts_3_to_125_witness:
  "fopen_125 (filenames ! 0) = Some (replicate 125 (line ''0'')) \<and>
   all_parse example_sscanf (replicate 125 (line ''0'')) \<and>
   length (data_lines (replicate 125 (line ''0''))) = 125 \<and>
   (\<exists>s'. read_data example_sscanf fopen_125 0 initial = Inr s' \<and> num_dat s' 0 = 125)"
proof -
  have o: "fopen_125 (filenames ! 0) = Some (replicate 125 (line ''0''))"
    by (simp add: fopen_125_def)
  note t = read_data_accepts_3_to_125 [where fopen = fopen_125 and f = 0 and s = initial
      and sscanf = example_sscanf, OF o]
  from t have "\<exists>s'. read_data example_sscanf fopen_125 0 initial = Inr s'"
    by simp
  then obtain s' where s': "read_data example_sscanf fopen_125 0 initial = Inr s'" ..
  with t have "num_dat s' 0 = 125" by simp
  with s' o show ?thesis by auto
qed

text \<open>
  The claim as the specification words it has a file of exactly MAX_STATIONS - 2 = 126
  readings accepted.  \<open>read_data\<close> rejects it: with the 126th reading the count reaches
  126, and the capacity test, made with \<open>\<ge>\<close> after the increment, ends the program.
\<close>

theorem read_data_rejects_126_readings:
  "length (replicate 126 (line ''0'')) = MAX_STATIONS - 2 \<and>
   read_data example_sscanf fopen_126 0 initial = Inl (Too_many_stations 126 ''NW_SE.txt'')"
  by (simp add: read_data_126 MAX_STATIONS_def)

end
